theory Spec2Isabelle
  imports Main "HOL-Library.Sublist" "HOL-Library.AList" "HOL-Library.Multiset"
begin

section \<open>Strings and formatting\<close>

text \<open>
  Go strings are byte sequences; they are modelled as \<^typ>\<open>string\<close>. The helpers below are
  the parts of \<^verbatim>\<open>strings\<close> and \<^verbatim>\<open>fmt\<close> that \<^verbatim>\<open>moq.go\<close> calls.
\<close>

text \<open>\<^verbatim>\<open>%d\<close> of a non-negative integer: its decimal digits.\<close>

fun itoa :: "nat \<Rightarrow> string" where
  "itoa n = (if n < 10 then [''0123456789'' ! n]
             else itoa (n div 10) @ [''0123456789'' ! (n mod 10)])"

declare itoa.simps [simp del]

text \<open>
  \<^verbatim>\<open>fmt.Sprintf(nameFormat, ii+1)\<close> for a format with one \<^verbatim>\<open>%d\<close> verb, as at both call
  sites (\<^verbatim>\<open>"in%d"\<close>, \<^verbatim>\<open>"out%d"\<close>). A format without a verb gets Go's
  \<^verbatim>\<open>%!(EXTRA int=n)\<close> suffix.
\<close>

fun Sprintf_d :: "string \<Rightarrow> nat \<Rightarrow> string" where
  "Sprintf_d [] n = ''%!(EXTRA int='' @ itoa n @ '')''"
| "Sprintf_d [c] n = c # Sprintf_d [] n"
| "Sprintf_d (c # d # cs) n =
     (if c = CHR ''%'' \<and> d = CHR ''d'' then itoa n @ cs else c # Sprintf_d (d # cs) n)"

text \<open>\<^verbatim>\<open>strings.Contains(s, substr)\<close>.\<close>

fun Contains :: "string \<Rightarrow> string \<Rightarrow> bool" where
  "Contains [] sub = (sub = [])"
| "Contains (c # cs) sub = (prefix sub (c # cs) \<or> Contains cs sub)"

text \<open>\<^verbatim>\<open>strings.Join(elems, sep)\<close>.\<close>

fun Join :: "string list \<Rightarrow> string \<Rightarrow> string" where
  "Join [] sep = []"
| "Join [s] sep = s"
| "Join (s # t # ss) sep = s @ sep @ Join (t # ss) sep"

text \<open>
  \<^verbatim>\<open>strings.ToUpper\<close> of a one-byte string: an ASCII lower-case letter is mapped to its
  upper-case letter, any other ASCII byte is kept, and a byte above 0x7F (not valid UTF-8 on
  its own) becomes the encoding of U+FFFD.
\<close>

definition ToUpper1 :: "char \<Rightarrow> string" where
  "ToUpper1 c =
     (let n = (of_char c :: nat) in
      if 97 \<le> n \<and> n \<le> 122 then [char_of (n - 32)]
      else if n < 128 then [c]
      else [char_of (239::nat), char_of (191::nat), char_of (189::nat)])"

text \<open>The template function \<^verbatim>\<open>Exported\<close>.\<close>

fun Exported :: "string \<Rightarrow> string" where
  "Exported [] = []"
| "Exported (c # cs) = ToUpper1 c @ cs"

section \<open>The resolved types handed over by \<^verbatim>\<open>go/types\<close>\<close>

record gopkg =
  pkg_name :: string
  pkg_path :: string

datatype chandir = SendRecv | SendOnly | RecvOnly

text \<open>
  The type expressions that occur in method signatures. A named type carries its home
  package (\<open>None\<close> for the universe, e.g. \<^verbatim>\<open>error\<close>); a function type carries its parameter
  and result variables (name, type) and its variadic flag.
\<close>

datatype gotype =
    Basic string
  | Named "gopkg option" string
  | Pointer gotype
  | Slice gotype
  | Array nat gotype
  | Map gotype gotype
  | Chan chandir gotype
  | Func "(string \<times> gotype) list" "(string \<times> gotype) list" bool

type_synonym var = "string \<times> gotype"

record signature =
  Params_of :: "var list"
  Results_of :: "var list"
  Variadic_of :: bool

text \<open>
  A qualifier is a callback \<^verbatim>\<open>func(*types.Package) string\<close>; the one moq passes has a
  side effect on the Mocker, so the callback is a state transformer.
\<close>

type_synonym 's qualifier = "gopkg \<Rightarrow> 's \<Rightarrow> string \<times> 's"

text \<open>
  \<^verbatim>\<open>types.WriteType\<close> and \<^verbatim>\<open>writeTuple\<close> (without the enclosing parentheses) of
  \<^verbatim>\<open>go/types/typestring.go\<close>: the qualifier is called once for every package-level named
  type, left to right, and a non-empty qualifier is followed by a dot.
\<close>

function (sequential) writeType :: "gotype \<Rightarrow> 's qualifier \<Rightarrow> 's \<Rightarrow> string \<times> 's"
  and writeVars :: "var list \<Rightarrow> bool \<Rightarrow> bool \<Rightarrow> 's qualifier \<Rightarrow> 's \<Rightarrow> string \<times> 's"
where
  "writeType (Basic n) qf s = (n, s)"
| "writeType (Named None n) qf s = (n, s)"
| "writeType (Named (Some p) n) qf s =
     (let (q, s') = qf p s in ((if q \<noteq> [] then q @ ''.'' else []) @ n, s'))"
| "writeType (Pointer t) qf s = (let (r, s') = writeType t qf s in (''*'' @ r, s'))"
| "writeType (Slice t) qf s = (let (r, s') = writeType t qf s in (''[]'' @ r, s'))"
| "writeType (Array n t) qf s =
     (let (r, s') = writeType t qf s in (''['' @ itoa n @ '']'' @ r, s'))"
| "writeType (Map k t) qf s =
     (let (rk, s1) = writeType k qf s; (rt, s2) = writeType t qf s1
      in (''map['' @ rk @ '']'' @ rt, s2))"
| "writeType (Chan d t) qf s =
     (let pre = (case d of SendRecv \<Rightarrow> ''chan '' | SendOnly \<Rightarrow> ''chan<- ''
                 | RecvOnly \<Rightarrow> ''<-chan '');
          parens = (d = SendRecv \<and> (case t of Chan RecvOnly _ \<Rightarrow> True | _ \<Rightarrow> False));
          (r, s') = writeType t qf s
      in (pre @ (if parens then ''('' else []) @ r @ (if parens then '')'' else []), s'))"
| "writeType (Func ps rs v) qf s =
     (let (rp, s1) = writeVars ps v True qf s in
      (case rs of
         [] \<Rightarrow> (''func('' @ rp @ '')'', s1)
       | [(n, t)] \<Rightarrow>
           if n = [] then
             (let (rr, s2) = writeType t qf s1 in (''func('' @ rp @ '') '' @ rr, s2))
           else
             (let (rr, s2) = writeVars rs False True qf s1
              in (''func('' @ rp @ '') ('' @ rr @ '')'', s2))
       | _ \<Rightarrow>
           (let (rr, s2) = writeVars rs False True qf s1
            in (''func('' @ rp @ '') ('' @ rr @ '')'', s2))))"
| "writeVars [] variadic first qf s = ([], s)"
| "writeVars ((n, t) # vs) variadic first qf s =
     (let sep = (if first then [] else '', '');
          nm = (if n \<noteq> [] then n @ '' '' else [])
      in if variadic \<and> vs = [] then
           (case t of
              Slice e \<Rightarrow> (let (r, s') = writeType e qf s in (sep @ nm @ ''...'' @ r, s'))
            | _ \<Rightarrow> (let (r, s') = writeType t qf s in (sep @ nm @ r @ ''...'', s')))
         else
           (let (r, s1) = writeType t qf s; (rest, s2) = writeVars vs variadic False qf s1
            in (sep @ nm @ r @ rest, s2)))"
  by pat_completeness auto
termination
  by (relation "measure (\<lambda>x. case x of
      Inl (t, _, _) \<Rightarrow> size t
    | Inr (vs, _, _, _, _) \<Rightarrow> size_list (size_prod (\<lambda>_. 0) size) vs)") auto

text \<open>\<^verbatim>\<open>types.TypeString(typ, qf)\<close>.\<close>

definition TypeString :: "gotype \<Rightarrow> 's qualifier \<Rightarrow> 's \<Rightarrow> string \<times> 's" where
  "TypeString typ qf s = writeType typ qf s"

text \<open>
  What \<^verbatim>\<open>Scope().Lookup(n)\<close> returns, as far as \<^verbatim>\<open>Mock\<close> looks at it: the text of
  \<^verbatim>\<open>Type().String()\<close> and, when \<^verbatim>\<open>types.IsInterface\<close> holds, the completed method set in
  the order of \<^verbatim>\<open>Method(i)\<close>.
\<close>

record object =
  type_String :: string
  iface_methods :: "(string \<times> signature) list option"

text \<open>
  A Go map is an association list with distinct keys; \<^verbatim>\<open>m[k] = v\<close> is
  \<^const>\<open>AList.update\<close>. The order in which \<^verbatim>\<open>range\<close> visits a map is chosen by the Go
  runtime and is not specified: it is an input of the model, a function that rearranges the
  entries of the map it is given.
\<close>

type_synonym ('k, 'v) gomap = "('k \<times> 'v) list"

text \<open>A parsed file; its text stands for the syntax tree.\<close>

datatype ast_File = ast_File string

text \<open>
  A parsed package: the map \<^verbatim>\<open>Files\<close> from file name to file, and the outcome of
  \<^verbatim>\<open>conf.Check(m.src, m.fset, files, nil)\<close> as a function of the slice \<^verbatim>\<open>files\<close> it is
  handed (the checker stops at the first error it meets, so the outcome can depend on the
  order of the files): the checker's diagnostic, or the package scope as an association list.
\<close>

record ast_Package =
  Files :: "(string, ast_File) gomap"
  Check :: "ast_File list \<Rightarrow> string + (string \<times> object) list"

section \<open>The Mocker\<close>

text \<open>
  Errors returned by \<^verbatim>\<open>New\<close> and \<^verbatim>\<open>Mock\<close>, one constructor per error site, and
  \<open>Panic\<close> for a run-time panic (which is not a returned error: it unwinds the caller).
\<close>

datatype error =
    ParseError string              \<comment> \<open>the error of \<^verbatim>\<open>parser.ParseDir\<close>\<close>
  | NoPackageName                  \<comment> \<open>\<^verbatim>\<open>failed to determine package name\<close>\<close>
  | NoInterfaceSpecified           \<comment> \<open>\<^verbatim>\<open>must specify one interface\<close>\<close>
  | TypeCheckError string          \<comment> \<open>the error of \<^verbatim>\<open>conf.Check\<close>\<close>
  | InterfaceNotFound string       \<comment> \<open>\<^verbatim>\<open>cannot find interface %s\<close>\<close>
  | NotAnInterface string string   \<comment> \<open>\<^verbatim>\<open>%s (%s) not an interface\<close>\<close>
  | WriteError                     \<comment> \<open>the error of the output writer\<close>
  | Panic string

record runtime =
  range_pkgs :: "(string, ast_Package) gomap \<Rightarrow> (string, ast_Package) gomap"
  range_files :: "(string, ast_File) gomap \<Rightarrow> (string, ast_File) gomap"
  range_imports :: "(string, bool) gomap \<Rightarrow> (string, bool) gomap"

definition valid_runtime :: "runtime \<Rightarrow> bool" where
  "valid_runtime rt \<longleftrightarrow>
     (\<forall>m. mset (range_pkgs rt m) = mset m) \<and> (\<forall>m. mset (range_files rt m) = mset m) \<and>
     (\<forall>m. mset (range_imports rt m) = mset m)"

text \<open>The loop of \<^verbatim>\<open>New\<close> over the package names, started with \<^verbatim>\<open>packageName == ""\<close>.\<close>

fun New_pick :: "string list \<Rightarrow> string" where
  "New_pick [] = []"
| "New_pick (pkgName # rest) =
     (if Contains pkgName ''_test'' then New_pick rest else pkgName)"

text \<open>
  The struct \<^verbatim>\<open>Mocker\<close>. The fields \<^verbatim>\<open>tmpl\<close> (the parsed constant template) and
  \<^verbatim>\<open>fset\<close> (source positions) are never inspected by the code modelled here.
\<close>

text \<open>The field \<^verbatim>\<open>imports\<close> is written \<open>imports'\<close>.\<close>

record Mocker =
  src :: string
  pkgs :: "(string, ast_Package) gomap"
  pkgName :: string
  imports' :: "(string, bool) gomap"

text \<open>
  \<^verbatim>\<open>New(src, packageName)\<close>. The first argument is the result of
  \<^verbatim>\<open>parser.ParseDir(fset, src, noTestFiles, parser.SpuriousErrors)\<close>; parsing the constant
  template does not fail.
\<close>

definition New :: "runtime \<Rightarrow> error + (string, ast_Package) gomap \<Rightarrow> string \<Rightarrow> string
    \<Rightarrow> error + Mocker" where
  "New rt parsed src0 packageName =
     (case parsed of
        Inl err \<Rightarrow> Inl err
      | Inr pkgs0 \<Rightarrow>
          (let packageName1 =
                 (if length packageName = 0 then New_pick (map fst (range_pkgs rt pkgs0))
                  else packageName)
           in if length packageName1 = 0 then Inl NoPackageName
              else Inr \<lparr>src = src0, pkgs = pkgs0, pkgName = packageName1, imports' = []\<rparr>))"

subsection \<open>Descriptors\<close>

record param =
  Name :: string
  Type :: string
  Variadic :: bool

record "method" =
  method_Name :: string
  Params :: "param list"
  Returns :: "param list"

record obj =
  InterfaceName :: string
  Methods :: "method list"

record doc =
  PackageName :: string
  Objects :: "obj list"
  Imports :: "string list"

definition moqImports :: "string list" where
  "moqImports = [''sync'']"

subsection \<open>Extraction\<close>

definition packageQualifier :: "Mocker qualifier" where
  "packageQualifier pkg m =
     (if pkgName m = pkg_name pkg then ([], m)
      else (pkg_name pkg, m\<lparr>imports' := AList.update (pkg_path pkg) True (imports' m)\<rparr>))"

text \<open>
  The loop of \<^verbatim>\<open>extractArgs\<close> from index \<open>ii\<close> on, over the variables not yet visited.
  \<^verbatim>\<open>typename[0:2]\<close> panics when the string is shorter than two bytes; \<^verbatim>\<open>&&\<close>
  evaluates it only after the two tests before it.
\<close>

fun extractArgs_loop :: "signature \<Rightarrow> nat \<Rightarrow> string \<Rightarrow> var list \<Rightarrow> nat \<Rightarrow> param list
    \<Rightarrow> Mocker \<Rightarrow> (error + param list) \<times> Mocker" where
  "extractArgs_loop sig listLen nameFormat [] ii params m = (Inr params, m)"
| "extractArgs_loop sig listLen nameFormat (p # rest) ii params m =
     (let name = (if fst p = [] then Sprintf_d nameFormat (ii + 1) else fst p);
          (typename, m1) = TypeString (snd p) packageQualifier m
      in if Variadic_of sig \<and> ii = listLen - 1 \<and> length typename < 2
         then (Inl (Panic ''slice bounds out of range''), m1)
         else
           (let variadic = (Variadic_of sig \<and> ii = listLen - 1 \<and> take 2 typename = ''[]'')
            in extractArgs_loop sig listLen nameFormat rest (ii + 1)
                 (params @ [\<lparr>Name = name, Type = typename, Variadic = variadic\<rparr>]) m1))"

definition extractArgs :: "signature \<Rightarrow> var list \<Rightarrow> string \<Rightarrow> Mocker
    \<Rightarrow> (error + param list) \<times> Mocker" where
  "extractArgs sig list nameFormat m = extractArgs_loop sig (length list) nameFormat list 0 [] m"

text \<open>The loop of \<^verbatim>\<open>Mock\<close> over the methods of one interface.\<close>

fun Mock_methods :: "(string \<times> signature) list \<Rightarrow> method list \<Rightarrow> Mocker
    \<Rightarrow> (error + method list) \<times> Mocker" where
  "Mock_methods [] ms m = (Inr ms, m)"
| "Mock_methods ((mname, sig) # rest) ms m =
     (case extractArgs sig (Params_of sig) ''in%d'' m of
        (Inl e, m1) \<Rightarrow> (Inl e, m1)
      | (Inr ps, m1) \<Rightarrow>
          (case extractArgs sig (Results_of sig) ''out%d'' m1 of
             (Inl e, m2) \<Rightarrow> (Inl e, m2)
           | (Inr rs, m2) \<Rightarrow>
               Mock_methods rest
                 (ms @ [\<lparr>method_Name = mname, Params = ps, Returns = rs\<rparr>]) m2))"

text \<open>The loop of \<^verbatim>\<open>Mock\<close> over the requested names, in one type-checked package.\<close>

fun Mock_names :: "(string \<times> object) list \<Rightarrow> string list \<Rightarrow> obj list \<Rightarrow> Mocker
    \<Rightarrow> (error + obj list) \<times> Mocker" where
  "Mock_names scope [] objs m = (Inr objs, m)"
| "Mock_names scope (n # rest) objs m =
     (case map_of scope n of
        None \<Rightarrow> (Inl (InterfaceNotFound n), m)
      | Some iface \<Rightarrow>
          (case iface_methods iface of
             None \<Rightarrow> (Inl (NotAnInterface n (type_String iface)), m)
           | Some iiface \<Rightarrow>
               (case Mock_methods iiface [] m of
                  (Inl e, m1) \<Rightarrow> (Inl e, m1)
                | (Inr ms, m1) \<Rightarrow>
                    Mock_names scope rest
                      (objs @ [\<lparr>InterfaceName = n, Methods = ms\<rparr>]) m1)))"

text \<open>
  The loop \<^verbatim>\<open>for _, file := range pkg.Files { files[i] = file; i++ }\<close> of \<^verbatim>\<open>Mock\<close>, over
  the entries of the file map in the order \<^verbatim>\<open>range\<close> visits them: the slice \<^verbatim>\<open>files\<close>.
\<close>

fun Mock_files :: "(string \<times> ast_File) list \<Rightarrow> ast_File list" where
  "Mock_files [] = []"
| "Mock_files ((k, file) # rest) = file # Mock_files rest"

text \<open>
  The loop of \<^verbatim>\<open>Mock\<close> over the packages, in the order \<^verbatim>\<open>range\<close> visits them; the files
  of each package go to the type checker in the order \<^verbatim>\<open>range\<close> visits the file map.
\<close>

fun Mock_pkgs :: "runtime \<Rightarrow> (string \<times> ast_Package) list \<Rightarrow> string list \<Rightarrow> obj list
    \<Rightarrow> Mocker \<Rightarrow> (error + obj list) \<times> Mocker" where
  "Mock_pkgs rt [] name objs m = (Inr objs, m)"
| "Mock_pkgs rt ((k, pkg) # rest) name objs m =
     (let files = Mock_files (range_files rt (Files pkg)) in
      case Check pkg files of
        Inl err \<Rightarrow> (Inl (TypeCheckError err), m)
      | Inr scope \<Rightarrow>
          (case Mock_names scope name objs m of
             (Inl e, m1) \<Rightarrow> (Inl e, m1)
           | (Inr objs1, m1) \<Rightarrow> Mock_pkgs rt rest name objs1 m1))"

subsection \<open>Methods of the descriptors\<close>

text \<open>
  \<^verbatim>\<open>param.TypeString\<close>; \<^verbatim>\<open>p.Type[2:]\<close> panics on a string shorter than two bytes.
\<close>

definition param_TypeString :: "param \<Rightarrow> error + string" where
  "param_TypeString p =
     (if Variadic p then
        (if length (Type p) < 2 then Inl (Panic ''slice bounds out of range'')
         else Inr (''...'' @ drop 2 (Type p)))
      else Inr (Type p))"

definition param_String :: "param \<Rightarrow> error + string" where
  "param_String p =
     (case param_TypeString p of Inl e \<Rightarrow> Inl e | Inr t \<Rightarrow> Inr (Name p @ '' '' @ t))"

definition param_CallName :: "param \<Rightarrow> string" where
  "param_CallName p = (if Variadic p then Name p @ ''...'' else Name p)"

text \<open>The loops \<^verbatim>\<open>for i, p := range ... { params[i] = ... }\<close>: the first panic ends them.\<close>

fun collect :: "('a \<Rightarrow> error + 'b) \<Rightarrow> 'a list \<Rightarrow> error + 'b list" where
  "collect f [] = Inr []"
| "collect f (x # xs) =
     (case f x of
        Inl e \<Rightarrow> Inl e
      | Inr y \<Rightarrow> (case collect f xs of Inl e \<Rightarrow> Inl e | Inr ys \<Rightarrow> Inr (y # ys)))"

definition Arglist :: "method \<Rightarrow> error + string" where
  "Arglist m =
     (case collect param_String (Params m) of
        Inl e \<Rightarrow> Inl e
      | Inr params \<Rightarrow> Inr (Join params '', ''))"

definition ArgCallList :: "method \<Rightarrow> string" where
  "ArgCallList m = Join (map param_CallName (Params m)) '', ''"

definition ReturnArglist :: "method \<Rightarrow> error + string" where
  "ReturnArglist m =
     (case collect param_TypeString (Returns m) of
        Inl e \<Rightarrow> Inl e
      | Inr params \<Rightarrow>
          if length (Returns m) > 1 then Inr (''('' @ Join params '', '' @ '')'')
          else Inr (Join params '', ''))"

section \<open>The template\<close>

text \<open>
  Executing \<^verbatim>\<open>moqTemplate\<close> is a sequence of writes, one for every text node and one for
  every action, in order; an action whose method panics ends the execution there. The
  functions below give that sequence for each \<^verbatim>\<open>range\<close> body and for the whole template,
  with the white space next to \<^verbatim>\<open>{{-\<close> and \<^verbatim>\<open>-}}\<close> removed as the template parser does.
  Text nodes are copied byte for byte (tabs included).
\<close>

type_synonym emit = "error + string"

definition tmpl_Imports :: "string \<Rightarrow> emit list" where
  \<open>tmpl_Imports path =
     [Inr ''\<newline>	"'',
      Inr path,
      Inr ''"'']\<close>

definition tmpl_usage :: "method \<Rightarrow> emit list" where
  \<open>tmpl_usage mt =
     [Inr ''\<newline>//             '',
      Inr (method_Name mt),
      Inr ''Func: func('',
      Arglist mt,
      Inr '') '',
      ReturnArglist mt,
      Inr '' {\<newline>// 	               panic("TODO: mock out the '',
      Inr (method_Name mt),
      Inr '' method")\<newline>//             },'']\<close>

definition tmpl_fields :: "method \<Rightarrow> emit list" where
  \<open>tmpl_fields mt =
     [Inr ''\<newline>	// '',
      Inr (method_Name mt),
      Inr ''Func mocks the '',
      Inr (method_Name mt),
      Inr '' method.\<newline>	'',
      Inr (method_Name mt),
      Inr ''Func func('',
      Arglist mt,
      Inr '') '',
      ReturnArglist mt,
      Inr ''\<newline>'']\<close>

definition tmpl_CallsTo_Params :: "param \<Rightarrow> emit list" where
  \<open>tmpl_CallsTo_Params pa =
     [Inr ''\<newline>			// '',
      Inr (Exported (Name pa)),
      Inr '' is the '',
      Inr (Name pa),
      Inr '' argument value.\<newline>			'',
      Inr (Exported (Name pa)),
      Inr '' '',
      Inr (Type pa)]\<close>

definition tmpl_CallsTo :: "method \<Rightarrow> emit list" where
  \<open>tmpl_CallsTo mt =
     [Inr ''\<newline>		lock'',
      Inr (method_Name mt),
      Inr '' sync.Mutex // protects '',
      Inr (method_Name mt),
      Inr ''\<newline>		// '',
      Inr (method_Name mt),
      Inr '' holds details about calls to the '',
      Inr (method_Name mt),
      Inr '' method.\<newline>		'',
      Inr (method_Name mt),
      Inr '' []struct {'']
   @ concat (map tmpl_CallsTo_Params (Params mt))
   @ [Inr ''\<newline>		}'']\<close>

definition tmpl_impl_fields :: "param \<Rightarrow> emit list" where
  \<open>tmpl_impl_fields pa =
     [Inr ''\<newline>		'',
      Inr (Exported (Name pa)),
      Inr '' '',
      Inr (Type pa)]\<close>

definition tmpl_impl_values :: "param \<Rightarrow> emit list" where
  \<open>tmpl_impl_values pa =
     [Inr ''\<newline>		'',
      Inr (Exported (Name pa)),
      Inr '': '',
      Inr (Name pa),
      Inr '','']\<close>

definition tmpl_impl :: "obj \<Rightarrow> method \<Rightarrow> emit list" where
  \<open>tmpl_impl ob mt =
     [Inr ''\<newline>// '',
      Inr (method_Name mt),
      Inr '' calls '',
      Inr (method_Name mt),
      Inr ''Func.\<newline>func (mock *'',
      Inr (InterfaceName ob),
      Inr ''Mock) '',
      Inr (method_Name mt),
      Inr ''('',
      Arglist mt,
      Inr '') '',
      ReturnArglist mt,
      Inr '' {\<newline>	if mock.'',
      Inr (method_Name mt),
      Inr ''Func == nil {\<newline>		panic("moq: '',
      Inr (InterfaceName ob),
      Inr ''Mock.'',
      Inr (method_Name mt),
      Inr ''Func is nil but was just called")\<newline>	}\<newline>	mock.CallsTo.lock'',
      Inr (method_Name mt),
      Inr ''.Lock()\<newline>	mock.CallsTo.'',
      Inr (method_Name mt),
      Inr '' = append(mock.CallsTo.'',
      Inr (method_Name mt),
      Inr '', struct{'']
   @ concat (map tmpl_impl_fields (Params mt))
   @ [Inr ''\<newline>	}{'']
   @ concat (map tmpl_impl_values (Params mt))
   @ [Inr ''\<newline>	})\<newline>	mock.CallsTo.lock'',
      Inr (method_Name mt),
      Inr ''.Unlock()'']
   @ (case ReturnArglist mt of
        Inl e \<Rightarrow> [Inl e]
      | Inr r \<Rightarrow>
          if r \<noteq> [] then
            [Inr ''\<newline>	return mock.'',
               Inr (method_Name mt),
               Inr ''Func('',
               Inr (ArgCallList mt),
               Inr '')'']
          else
            [Inr ''\<newline>	mock.'',
               Inr (method_Name mt),
               Inr ''Func('',
               Inr (ArgCallList mt),
               Inr '')''])
   @ [Inr ''\<newline>}\<newline>'']\<close>

definition tmpl_Objects :: "obj \<Rightarrow> emit list" where
  \<open>tmpl_Objects ob =
     [Inr ''\<newline>// '',
      Inr (InterfaceName ob),
      Inr ''Mock is a mock implementation of '',
      Inr (InterfaceName ob),
      Inr ''.\<newline>//\<newline>//     func TestSomethingThatUses'',
      Inr (InterfaceName ob),
      Inr ''(t *testing.T) {\<newline>//\<newline>//         // make and configure a mocked '',
      Inr (InterfaceName ob),
      Inr ''\<newline>//         mocked'',
      Inr (InterfaceName ob),
      Inr '' := &'',
      Inr (InterfaceName ob),
      Inr ''Mock{ '']
   @ concat (map tmpl_usage (Methods ob))
   @ [Inr ''\<newline>//         }\<newline>//\<newline>//         // TODO: use mocked'',
      Inr (InterfaceName ob),
      Inr '' in code that requires '',
      Inr (InterfaceName ob),
      Inr ''\<newline>//         //       and then make assertions.\<newline>//         //\<newline>//         // Use the CallsTo structure to access details about what calls were made:\<newline>//         // \<newline>//         //     if len(mocked'',
      Inr (InterfaceName ob),
      Inr ''.CallsTo.MethodFunc) != 1 {\<newline>//	       //     	t.Errorf("expected 1 call there were %d", len(mocked'',
      Inr (InterfaceName ob),
      Inr ''.CallsTo.MethodFunc))\<newline>//         //     }\<newline>//         \<newline>//     }\<newline>type '',
      Inr (InterfaceName ob),
      Inr ''Mock struct {'']
   @ concat (map tmpl_fields (Methods ob))
   @ [Inr ''\<newline>	// CallsTo tracks calls to the methods.\<newline>	CallsTo struct {'']
   @ concat (map tmpl_CallsTo (Methods ob))
   @ [Inr ''\<newline>	}\<newline>}\<newline>'']
   @ concat (map (tmpl_impl ob) (Methods ob))\<close>

definition moqTemplate :: "doc \<Rightarrow> emit list" where
  \<open>moqTemplate d =
     [Inr ''package '',
      Inr (PackageName d),
      Inr ''\<newline>\<newline>// AUTOGENERATED BY MOQ\<newline>// github.com/matryer/moq\<newline>\<newline>import ('']
   @ concat (map tmpl_Imports (Imports d))
   @ [Inr ''\<newline>)\<newline>'']
   @ concat (map tmpl_Objects (Objects d))\<close>

subsection \<open>The output writer\<close>

text \<open>
  An \<^verbatim>\<open>io.Writer\<close>: a buffer that records what was written, unbounded (\<open>room = None\<close>) or
  with room for a number of bytes, after which a write is short and returns an error.
\<close>

record writer =
  written :: string
  room :: "nat option"

definition Write :: "writer \<Rightarrow> string \<Rightarrow> error option \<times> writer" where
  "Write w p =
     (case room w of
        None \<Rightarrow> (None, w\<lparr>written := written w @ p\<rparr>)
      | Some r \<Rightarrow>
          if length p \<le> r then (None, w\<lparr>written := written w @ p, room := Some (r - length p)\<rparr>)
          else (Some WriteError, w\<lparr>written := written w @ take r p, room := Some 0\<rparr>))"

text \<open>\<^verbatim>\<open>tmpl.Execute(w, doc)\<close>: the writes go to \<open>w\<close> one by one, up to the first failure.\<close>

fun Execute_emits :: "writer \<Rightarrow> emit list \<Rightarrow> error option \<times> writer" where
  "Execute_emits w [] = (None, w)"
| "Execute_emits w (Inl e # rest) = (Some e, w)"
| "Execute_emits w (Inr s # rest) =
     (case Write w s of
        (Some e, w1) \<Rightarrow> (Some e, w1)
      | (None, w1) \<Rightarrow> Execute_emits w1 rest)"

definition Execute :: "writer \<Rightarrow> doc \<Rightarrow> error option \<times> writer" where
  "Execute w d = Execute_emits w (moqTemplate d)"

subsection \<open>Mock\<close>

text \<open>
  The part of \<^verbatim>\<open>Mock\<close> before \<^verbatim>\<open>m.tmpl.Execute\<close>: the document and the Mocker as the
  loops leave it.
\<close>

definition Mock_doc :: "runtime \<Rightarrow> Mocker \<Rightarrow> string list \<Rightarrow> (error + doc) \<times> Mocker" where
  "Mock_doc rt m name =
     (if length name = 0 then (Inl NoInterfaceSpecified, m)
      else
        (case Mock_pkgs rt (range_pkgs rt (pkgs m)) name [] m of
           (Inl e, m1) \<Rightarrow> (Inl e, m1)
         | (Inr objs, m1) \<Rightarrow>
             (Inr \<lparr>PackageName = pkgName m, Objects = objs,
                   Imports = moqImports @ map fst (range_imports rt (imports' m1))\<rparr>, m1)))"

text \<open>
  \<^verbatim>\<open>Mock(w, name...)\<close>: the returned error (\<open>None\<close> for \<^verbatim>\<open>nil\<close>), the Mocker and the writer
  after the call.
\<close>

definition Mock :: "runtime \<Rightarrow> Mocker \<Rightarrow> writer \<Rightarrow> string list
    \<Rightarrow> error option \<times> Mocker \<times> writer" where
  "Mock rt m w name =
     (case Mock_doc rt m name of
        (Inl e, m1) \<Rightarrow> (Some e, m1, w)
      | (Inr d, m1) \<Rightarrow> (case Execute w d of (err, w1) \<Rightarrow> (err, m1, w1)))"

section \<open>Auxiliary definitions for the statements\<close>

text \<open>Two runtimes: one visits a map in the order of its entries, one in the reverse order.\<close>

definition rt_id :: runtime where
  "rt_id = \<lparr>range_pkgs = id, range_files = id, range_imports = id\<rparr>"

definition rt_rev :: runtime where
  "rt_rev = \<lparr>range_pkgs = rev, range_files = rev, range_imports = rev\<rparr>"

text \<open>The parser gives every package a name: no key of the package map is empty.\<close>

text \<open>
  An example package of two files that type-checks, in either order of the files, to the
  given scope.
\<close>

definition ex_pkg :: "(string \<times> object) list \<Rightarrow> ast_Package" where
  "ex_pkg scope =
     \<lparr>Files = [(''a.go'', ast_File ''a''), (''b.go'', ast_File ''b'')],
      Check = (\<lambda>files. Inr scope)\<rparr>"

definition names_nonempty :: "(string, ast_Package) gomap \<Rightarrow> bool" where
  "names_nonempty ps \<longleftrightarrow> (\<forall>n \<in> set (map fst ps). n \<noteq> [])"

text \<open>Reading a decimal numeral, to state that \<^const>\<open>itoa\<close> writes one.\<close>

definition atoi :: "string \<Rightarrow> nat" where
  "atoi s = foldl (\<lambda>a c. 10 * a + (of_char c - 48)) 0 s"

text \<open>
  A list of descriptors carries the positional names of a list of variables: a declared name
  is kept, and an empty name at (0-based) index \<open>k\<close> becomes the prefix followed by \<open>k + 1\<close>.
\<close>

definition named_by :: "string \<Rightarrow> var list \<Rightarrow> param list \<Rightarrow> bool" where
  "named_by pre list ps \<longleftrightarrow>
     length ps = length list \<and>
     (\<forall>k < length list.
        Name (ps ! k) = (if fst (list ! k) = [] then pre @ itoa (k + 1) else fst (list ! k)))"

text \<open>Example inputs: packages, a Mocker for the package \<^verbatim>\<open>example\<close>, and the signatures
  \<^verbatim>\<open>Greet(name string, io.Reader) (string, error)\<close>, \<^verbatim>\<open>F(xs ...int) []string\<close> and
  \<^verbatim>\<open>G(xs ...int) T\<close> with \<^verbatim>\<open>T\<close> declared in the package \<^verbatim>\<open>example\<close>.\<close>

definition ex_io :: gopkg where "ex_io = \<lparr>pkg_name = ''io'', pkg_path = ''io''\<rparr>"
definition ex_os :: gopkg where "ex_os = \<lparr>pkg_name = ''os'', pkg_path = ''os''\<rparr>"
definition ex_example :: gopkg where
  "ex_example = \<lparr>pkg_name = ''example'', pkg_path = ''github.com/x/example''\<rparr>"

definition ex_Mocker :: Mocker where
  "ex_Mocker = \<lparr>src = ''.'', pkgs = [], pkgName = ''example'', imports' = []\<rparr>"

definition ex_Greet :: signature where
  "ex_Greet = \<lparr>Params_of = [(''name'', Basic ''string''), ([], Named (Some ex_io) ''Reader'')],
      Results_of = [([], Basic ''string''), ([], Named None ''error'')],
      Variadic_of = False\<rparr>"

definition ex_F :: signature where
  "ex_F = \<lparr>Params_of = [(''xs'', Slice (Basic ''int''))],
      Results_of = [([], Slice (Basic ''string''))], Variadic_of = True\<rparr>"

definition ex_G :: signature where
  "ex_G = \<lparr>Params_of = [(''xs'', Slice (Basic ''int''))],
      Results_of = [([], Named (Some ex_example) ''T'')], Variadic_of = True\<rparr>"

text \<open>The keys of a map, and the way a Mocker changes while \<^verbatim>\<open>Mock\<close> runs: only the import
  set changes, and it only gains keys.\<close>

definition keys :: "('k, 'v) gomap \<Rightarrow> 'k list" where
  "keys m = map fst m"

definition grows :: "Mocker \<Rightarrow> Mocker \<Rightarrow> bool" where
  "grows m m' \<longleftrightarrow>
     src m' = src m \<and> pkgs m' = pkgs m \<and> pkgName m' = pkgName m \<and>
     set (keys (imports' m)) \<subseteq> set (keys (imports' m')) \<and>
     (distinct (keys (imports' m)) \<longrightarrow> distinct (keys (imports' m')))"

text \<open>
  More example inputs: the interfaces \<^verbatim>\<open>A { Read(r io.Reader) }\<close> and \<^verbatim>\<open>B { Ping() }\<close>, a
  Mocker for a directory with one package that declares both, a Mocker for a directory whose
  files declare two packages (each with \<^verbatim>\<open>B\<close>), a Mocker for
  \<^verbatim>\<open>L { Use(l sync.Locker) }\<close>, and an unbounded writer.
\<close>

definition ex_A :: object where
  "ex_A = \<lparr>type_String = ''example.A'',
      iface_methods = Some [(''Read'',
        \<lparr>Params_of = [(''r'', Named (Some ex_io) ''Reader'')], Results_of = [],
         Variadic_of = False\<rparr>)]\<rparr>"

definition ex_B :: object where
  "ex_B = \<lparr>type_String = ''example.B'',
      iface_methods = Some [(''Ping'', \<lparr>Params_of = [], Results_of = [], Variadic_of = False\<rparr>)]\<rparr>"

definition ex_AB :: Mocker where
  "ex_AB = \<lparr>src = ''.'', pkgs = [(''example'', ex_pkg [(''A'', ex_A), (''B'', ex_B)])],
      pkgName = ''example'', imports' = []\<rparr>"

definition ex_two :: Mocker where
  "ex_two = \<lparr>src = ''.'',
      pkgs = [(''example'', ex_pkg [(''B'', ex_B)]),
              (''main'', ex_pkg [(''B'', ex_B)])],
      pkgName = ''example'', imports' = []\<rparr>"

definition ex_buffer :: writer where
  "ex_buffer = \<lparr>written = [], room = None\<rparr>"

definition ex_sync :: gopkg where "ex_sync = \<lparr>pkg_name = ''sync'', pkg_path = ''sync''\<rparr>"

definition ex_L :: Mocker where
  "ex_L = \<lparr>src = ''.'',
      pkgs = [(''example'', ex_pkg [(''L'', \<lparr>type_String = ''example.L'',
        iface_methods = Some [(''Use'',
          \<lparr>Params_of = [(''l'', Named (Some ex_sync) ''Locker'')], Results_of = [],
           Variadic_of = False\<rparr>)]\<rparr>)])],
      pkgName = ''example'', imports' = []\<rparr>"

text \<open>
  A descriptor on which \<^verbatim>\<open>param.TypeString\<close> does not panic, lifted to methods and
  interfaces; a sequence of writes without a panic, and the text it writes.
\<close>

definition param_ok :: "param \<Rightarrow> bool" where
  "param_ok p \<longleftrightarrow> (\<not> Variadic p \<or> 2 \<le> length (Type p))"

definition method_ok :: "method \<Rightarrow> bool" where
  "method_ok mt \<longleftrightarrow> list_all param_ok (Params mt) \<and> list_all param_ok (Returns mt)"

definition obj_ok :: "obj \<Rightarrow> bool" where
  "obj_ok ob \<longleftrightarrow> list_all method_ok (Methods ob)"

definition emits_ok :: "emit list \<Rightarrow> bool" where
  "emits_ok es \<longleftrightarrow> list_all (\<lambda>e. \<not> isl e) es"

definition emit_text :: "emit list \<Rightarrow> string" where
  "emit_text es = concat (map (case_sum (\<lambda>e. []) id) es)"

text \<open>
  A writer with room for three bytes, and the parsed directory and Mocker for
  \<^verbatim>\<open>C { Copy(dst io.Writer, f *os.File) }\<close>.
\<close>

definition ex_small :: writer where
  "ex_small = \<lparr>written = [], room = Some 3\<rparr>"

definition ex_C_pkgs :: "(string, ast_Package) gomap" where
  "ex_C_pkgs = [(''example'', ex_pkg [(''C'', \<lparr>type_String = ''example.C'',
        iface_methods = Some [(''Copy'',
          \<lparr>Params_of = [(''dst'', Named (Some ex_io) ''Writer''),
                        (''f'', Pointer (Named (Some ex_os) ''File''))],
           Results_of = [], Variadic_of = False\<rparr>)]\<rparr>)])]"

definition ex_C :: Mocker where
  "ex_C = \<lparr>src = ''.'', pkgs = ex_C_pkgs, pkgName = ''example'', imports' = []\<rparr>"

text \<open>
  A signature as \<^verbatim>\<open>go/types\<close> builds it: the last parameter of a variadic signature is a
  slice.
\<close>

definition wf_signature :: "signature \<Rightarrow> bool" where
  "wf_signature sig \<longleftrightarrow>
     (\<not> Variadic_of sig \<or>
      (Params_of sig \<noteq> [] \<and> (case snd (last (Params_of sig)) of Slice e \<Rightarrow> True | _ \<Rightarrow> False)))"

text \<open>
  The text of a generated method up to its first statements, in the words of the
  specification: the comment line, the signature with its opening brace, the test of the
  function field against \<^verbatim>\<open>nil\<close> with its panic, and the call that locks the call log.
\<close>

definition impl_comment :: "method \<Rightarrow> string" where
  \<open>impl_comment mt =
     ''\<newline>// '' @ method_Name mt @ '' calls '' @ method_Name mt @ ''Func.\<newline>''\<close>

definition impl_signature :: "obj \<Rightarrow> method \<Rightarrow> string \<Rightarrow> string \<Rightarrow> string" where
  \<open>impl_signature ob mt args rets =
     ''func (mock *'' @ InterfaceName ob @ ''Mock) '' @ method_Name mt @ ''('' @ args @ '') ''
     @ rets @ '' {''\<close>

definition nil_check :: "obj \<Rightarrow> method \<Rightarrow> string" where
  \<open>nil_check ob mt =
     ''\<newline>	if mock.'' @ method_Name mt @ ''Func == nil {\<newline>		panic("moq: ''
     @ InterfaceName ob @ ''Mock.'' @ method_Name mt
     @ ''Func is nil but was just called")\<newline>	}''\<close>

definition lock_call :: "method \<Rightarrow> string" where
  \<open>lock_call mt = ''\<newline>	mock.CallsTo.lock'' @ method_Name mt @ ''.Lock()''\<close>

text \<open>
  The outcome of type-checking each package does not depend on the order in which its files
  are handed to the checker.
\<close>

definition check_order_free :: "(string, ast_Package) gomap \<Rightarrow> bool" where
  "check_order_free ps \<longleftrightarrow>
     (\<forall>(k, pkg) \<in> set ps. \<forall>files. mset files = mset (map snd (Files pkg))
        \<longrightarrow> Check pkg files = Check pkg (map snd (Files pkg)))"

text \<open>
  A Mocker for a package of two files, with a checker that reports an error of the first
  file it is handed.
\<close>

definition ex_broken :: Mocker where
  "ex_broken = \<lparr>src = ''.'',
      pkgs = [(''example'',
        \<lparr>Files = [(''a.go'', ast_File ''a''), (''b.go'', ast_File ''b'')],
         Check = (\<lambda>files. case files of [] \<Rightarrow> Inr []
                   | ast_File t # rest \<Rightarrow> Inl (''error in '' @ t))\<rparr>)],
      pkgName = ''example'', imports' = []\<rparr>"

text \<open>The text of the import lines for a list of paths.\<close>

definition import_block :: "string list \<Rightarrow> string" where
  "import_block paths = emit_text (concat (map tmpl_Imports paths))"

section \<open>Properties\<close>

subsection \<open>The runtimes\<close>

lemma valid_rt_id: "valid_runtime rt_id"
  by (simp add: valid_runtime_def rt_id_def)

lemma valid_rt_rev: "valid_runtime rt_rev"
  by (simp add: valid_runtime_def rt_rev_def)

lemma ex_pkg_Check [simp]: "Check (ex_pkg scope) files = Inr scope"
  by (simp add: ex_pkg_def)

lemma Mock_files_map: "Mock_files fs = map snd fs"
  by (induction fs) auto

subsection \<open>\<^verbatim>\<open>New\<close>\<close>

lemma Contains_iff: "Contains s sub \<longleftrightarrow> (\<exists>a b. s = a @ sub @ b)"
proof (induction s)
  case Nil
  then show ?case by auto
next
  case (Cons c cs)
  show ?case
  proof
    assume "Contains (c # cs) sub"
    then consider "prefix sub (c # cs)" | "Contains cs sub" by auto
    then show "\<exists>a b. c # cs = a @ sub @ b"
    proof cases
      case 1
      then obtain b where "c # cs = sub @ b" by (auto simp: prefix_def)
      then have "c # cs = [] @ sub @ b" by simp
      then show ?thesis by blast
    next
      case 2
      with Cons.IH obtain a b where "cs = a @ sub @ b" by blast
      then have "c # cs = (c # a) @ sub @ b" by simp
      then show ?thesis by blast
    qed
  next
    assume "\<exists>a b. c # cs = a @ sub @ b"
    then obtain a b where ab: "c # cs = a @ sub @ b" by blast
    show "Contains (c # cs) sub"
    proof (cases a)
      case Nil
      with ab have "prefix sub (c # cs)" by (simp add: prefix_def)
      then show ?thesis by simp
    next
      case (Cons x a')
      with ab have "cs = a' @ sub @ b" by simp
      with Cons.IH have "Contains cs sub" by blast
      then show ?thesis by simp
    qed
  qed
qed

lemma New_pick_find:
  "New_pick ns = (case find (\<lambda>n. \<not> Contains n ''_test'') ns of None \<Rightarrow> [] | Some n \<Rightarrow> n)"
  by (induction ns) auto

lemma New_pick_empty_iff:
  "\<forall>n \<in> set ns. n \<noteq> [] \<Longrightarrow> New_pick ns = [] \<longleftrightarrow> (\<forall>n \<in> set ns. Contains n ''_test'')"
  by (induction ns) auto

lemma valid_runtime_pkgs_set: "valid_runtime rt \<Longrightarrow> set (range_pkgs rt m) = set m"
  by (metis valid_runtime_def set_mset_mset)

text \<open>
  Claim C9. Called with an empty package name on a successfully parsed directory, \<^verbatim>\<open>New\<close>
  takes as target package name the first package name, in the order \<^verbatim>\<open>range\<close> visits the
  package map, that does not contain \<^verbatim>\<open>_test\<close>; it fails, with the error
  \<^verbatim>\<open>failed to determine package name\<close> and no other, exactly when every package name
  contains \<^verbatim>\<open>_test\<close> (in particular when there is no package).
\<close>

theorem New_default_package:
  assumes "valid_runtime rt" and "names_nonempty pkgs0"
  shows "New rt (Inr pkgs0) s [] =
           (case find (\<lambda>n. \<not> Contains n ''_test'') (map fst (range_pkgs rt pkgs0)) of
              None \<Rightarrow> Inl NoPackageName
            | Some n \<Rightarrow> Inr \<lparr>src = s, pkgs = pkgs0, pkgName = n, imports' = []\<rparr>)
         \<and> (isl (New rt (Inr pkgs0) s []) \<longleftrightarrow> New rt (Inr pkgs0) s [] = Inl NoPackageName)
         \<and> (New rt (Inr pkgs0) s [] = Inl NoPackageName
              \<longleftrightarrow> list_all (\<lambda>n. Contains n ''_test'') (map fst pkgs0))"
proof -
  let ?ns = "map fst (range_pkgs rt pkgs0)"
  have set_ns: "set ?ns = set (map fst pkgs0)"
    using valid_runtime_pkgs_set[OF assms(1)] by simp
  have ne: "\<forall>n \<in> set ?ns. n \<noteq> []"
    using assms(2) set_ns unfolding names_nonempty_def by blast
  have new: "New rt (Inr pkgs0) s [] =
      (if New_pick ?ns = [] then Inl NoPackageName
       else Inr \<lparr>src = s, pkgs = pkgs0, pkgName = New_pick ?ns, imports' = []\<rparr>)"
    by (simp add: New_def Let_def)
  have found: "find (\<lambda>n. \<not> Contains n ''_test'') ?ns = Some n \<Longrightarrow> n \<noteq> []" for n
    using ne by (auto simp: find_Some_iff)
  have c1: "New rt (Inr pkgs0) s [] =
           (case find (\<lambda>n. \<not> Contains n ''_test'') ?ns of
              None \<Rightarrow> Inl NoPackageName
            | Some n \<Rightarrow> Inr \<lparr>src = s, pkgs = pkgs0, pkgName = n, imports' = []\<rparr>)"
    using found by (auto simp: new New_pick_find split: option.splits)
  have c2: "isl (New rt (Inr pkgs0) s []) \<longleftrightarrow> New rt (Inr pkgs0) s [] = Inl NoPackageName"
    by (simp add: new)
  have "New rt (Inr pkgs0) s [] = Inl NoPackageName \<longleftrightarrow> New_pick ?ns = []"
    by (simp add: new)
  also have "\<dots> \<longleftrightarrow> (\<forall>n \<in> set ?ns. Contains n ''_test'')"
    using New_pick_empty_iff[OF ne] .
  also have "\<dots> \<longleftrightarrow> list_all (\<lambda>n. Contains n ''_test'') (map fst pkgs0)"
    unfolding set_ns by (simp add: list_all_iff)
  finally have c3: "New rt (Inr pkgs0) s [] = Inl NoPackageName
              \<longleftrightarrow> list_all (\<lambda>n. Contains n ''_test'') (map fst pkgs0)" .
  from c1 c2 c3 show ?thesis by blast
qed

theorem New_default_package_witness:
  "valid_runtime rt_id
   \<and> names_nonempty [(''moq_test'', ex_pkg []), (''moq'', ex_pkg [])]
   \<and> New rt_id (Inr [(''moq_test'', ex_pkg []), (''moq'', ex_pkg [])]) ''.'' []
       = Inr \<lparr>src = ''.'', pkgs = [(''moq_test'', ex_pkg []), (''moq'', ex_pkg [])],
              pkgName = ''moq'', imports' = []\<rparr>"
proof -
  let ?ps = "[(''moq_test'', ex_pkg []), (''moq'', ex_pkg [])]"
  have h1: "valid_runtime rt_id" by (rule valid_rt_id)
  have h2: "names_nonempty ?ps" by (simp add: names_nonempty_def)
  have f: "find (\<lambda>n. \<not> Contains n ''_test'') (map fst (range_pkgs rt_id ?ps)) = Some ''moq''"
    by (simp add: rt_id_def)
  from New_default_package[OF h1 h2, of "''.''"] f h1 h2 show ?thesis
    by simp
qed

subsection \<open>\<^verbatim>\<open>extractArgs\<close>\<close>

lemma itoa_digit: "n < 10 \<Longrightarrow> itoa n = [''0123456789'' ! n]"
  by (subst itoa.simps) simp

lemma digit_char: "d < 10 \<Longrightarrow> (of_char (''0123456789'' ! d) :: nat) = 48 + d"
proof -
  assume "d < 10"
  then have "d = 0 \<or> d = 1 \<or> d = 2 \<or> d = 3 \<or> d = 4 \<or> d = 5 \<or> d = 6
    \<or> d = 7 \<or> d = 8 \<or> d = 9" by arith
  then consider "d = 0" | "d = 1" | "d = 2" | "d = 3" | "d = 4" | "d = 5" | "d = 6"
    | "d = 7" | "d = 8" | "d = 9" by blast
  then show ?thesis by cases simp_all
qed

lemma atoi_snoc: "atoi (s @ [c]) = 10 * atoi s + (of_char c - 48)"
  by (simp add: atoi_def)

lemma atoi_itoa: "atoi (itoa n) = n"
proof (induction n rule: itoa.induct)
  case (1 n)
  show ?case
  proof (cases "n < 10")
    case True
    then show ?thesis by (subst itoa.simps) (simp add: atoi_def digit_char)
  next
    case False
    with 1 have "atoi (itoa (n div 10)) = n div 10" by simp
    with False show ?thesis
      by (subst itoa.simps) (simp add: atoi_snoc digit_char)
  qed
qed

lemma Sprintf_in: "Sprintf_d ''in%d'' n = ''in'' @ itoa n"
  by simp

lemma Sprintf_out: "Sprintf_d ''out%d'' n = ''out'' @ itoa n"
  by simp

lemma extractArgs_loop_Cons:
  "TypeString (snd p) packageQualifier m = (tn, m1) \<Longrightarrow>
   extractArgs_loop sig L fmt (p # rest) ii acc m =
     (if Variadic_of sig \<and> ii = L - 1 \<and> length tn < 2
      then (Inl (Panic ''slice bounds out of range''), m1)
      else extractArgs_loop sig L fmt rest (ii + 1)
             (acc @ [\<lparr>Name = (if fst p = [] then Sprintf_d fmt (ii + 1) else fst p), Type = tn,
                       Variadic = (Variadic_of sig \<and> ii = L - 1 \<and> take 2 tn = ''[]'')\<rparr>]) m1)"
  by (simp add: Let_def)

lemma extractArgs_loop_Inr:
  "extractArgs_loop sig L fmt rest ii acc m = (Inr ps, m') \<Longrightarrow>
     length ps = length acc + length rest \<and> take (length acc) ps = acc \<and>
     (\<forall>j < length rest.
        Name (ps ! (length acc + j)) =
          (if fst (rest ! j) = [] then Sprintf_d fmt (ii + j + 1) else fst (rest ! j)) \<and>
        Variadic (ps ! (length acc + j)) =
          (Variadic_of sig \<and> ii + j = L - 1 \<and> take 2 (Type (ps ! (length acc + j))) = ''[]''))"
proof (induction rest arbitrary: ii acc m)
  case Nil
  then show ?case by simp
next
  case (Cons p rest)
  obtain tn m1 where ts: "TypeString (snd p) packageQualifier m = (tn, m1)"
    by (cases "TypeString (snd p) packageQualifier m")
  let ?name = "if fst p = [] then Sprintf_d fmt (ii + 1) else fst p"
  let ?v = "Variadic_of sig \<and> ii = L - 1 \<and> take 2 tn = ''[]''"
  let ?q = "\<lparr>Name = ?name, Type = tn, Variadic = ?v\<rparr>"
  from Cons.prems have nopanic: "\<not> (Variadic_of sig \<and> ii = L - 1 \<and> length tn < 2)"
    unfolding extractArgs_loop_Cons[OF ts] by (auto split: if_splits)
  with Cons.prems have rec: "extractArgs_loop sig L fmt rest (ii + 1) (acc @ [?q]) m1 = (Inr ps, m')"
    unfolding extractArgs_loop_Cons[OF ts] by (simp split: if_splits)
  from Cons.IH[OF rec] have len: "length ps = length acc + 1 + length rest"
    and tk: "take (length acc + 1) ps = acc @ [?q]"
    and rest: "\<forall>j < length rest.
        Name (ps ! (length acc + 1 + j)) =
          (if fst (rest ! j) = [] then Sprintf_d fmt (ii + 1 + j + 1) else fst (rest ! j)) \<and>
        Variadic (ps ! (length acc + 1 + j)) =
          (Variadic_of sig \<and> ii + 1 + j = L - 1 \<and> take 2 (Type (ps ! (length acc + 1 + j))) = ''[]'')"
    by simp_all
  have "take (length acc) ps = take (length acc) (take (length acc + 1) ps)"
    by simp
  also have "\<dots> = acc" unfolding tk by simp
  finally have tk0: "take (length acc) ps = acc" .
  have "ps ! length acc = take (length acc + 1) ps ! length acc"
    by simp
  also have "\<dots> = ?q" unfolding tk by simp
  finally have at: "ps ! length acc = ?q" .
  have "\<forall>j < length (p # rest).
        Name (ps ! (length acc + j)) =
          (if fst ((p # rest) ! j) = [] then Sprintf_d fmt (ii + j + 1) else fst ((p # rest) ! j)) \<and>
        Variadic (ps ! (length acc + j)) =
          (Variadic_of sig \<and> ii + j = L - 1 \<and> take 2 (Type (ps ! (length acc + j))) = ''[]'')"
  proof (intro allI impI)
    fix j assume j: "j < length (p # rest)"
    show "Name (ps ! (length acc + j)) =
          (if fst ((p # rest) ! j) = [] then Sprintf_d fmt (ii + j + 1) else fst ((p # rest) ! j)) \<and>
        Variadic (ps ! (length acc + j)) =
          (Variadic_of sig \<and> ii + j = L - 1 \<and> take 2 (Type (ps ! (length acc + j))) = ''[]'')"
    proof (cases j)
      case 0
      then show ?thesis using at by simp
    next
      case (Suc j')
      with j have "j' < length rest" by simp
      with rest Suc show ?thesis by (simp add: add.commute add.left_commute)
    qed
  qed
  with len tk0 show ?case by simp
qed

lemma extractArgs_Inr:
  assumes "extractArgs sig list fmt m = (Inr ps, m')"
  shows "length ps = length list"
    and "k < length list \<Longrightarrow>
           Name (ps ! k) = (if fst (list ! k) = [] then Sprintf_d fmt (k + 1) else fst (list ! k))"
    and "k < length list \<Longrightarrow>
           Variadic (ps ! k) =
             (Variadic_of sig \<and> k = length list - 1 \<and> take 2 (Type (ps ! k)) = ''[]'')"
  using extractArgs_loop_Inr[OF assms[unfolded extractArgs_def]] by simp_all


lemma Mock_methods_Cons:
  "Mock_methods ((mname, sig) # rest) ms m = (Inr res, m') \<Longrightarrow>
   \<exists>ps m1 rs m2. extractArgs sig (Params_of sig) ''in%d'' m = (Inr ps, m1) \<and>
      extractArgs sig (Results_of sig) ''out%d'' m1 = (Inr rs, m2) \<and>
      Mock_methods rest (ms @ [\<lparr>method_Name = mname, Params = ps, Returns = rs\<rparr>]) m2 = (Inr res, m')"
  by (auto split: prod.splits sum.splits)

lemma Mock_methods_Inr:
  "Mock_methods iiface acc m = (Inr ms, m') \<Longrightarrow>
     length ms = length acc + length iiface \<and> take (length acc) ms = acc \<and>
     (\<forall>i < length iiface.
        method_Name (ms ! (length acc + i)) = fst (iiface ! i) \<and>
        (\<exists>ma mb mc.
           extractArgs (snd (iiface ! i)) (Params_of (snd (iiface ! i))) ''in%d'' ma
             = (Inr (Params (ms ! (length acc + i))), mb) \<and>
           extractArgs (snd (iiface ! i)) (Results_of (snd (iiface ! i))) ''out%d'' mb
             = (Inr (Returns (ms ! (length acc + i))), mc)))"
proof (induction iiface arbitrary: acc m)
  case Nil
  then show ?case by simp
next
  case (Cons x rest)
  obtain mname sig where x: "x = (mname, sig)" by (cases x)
  from Mock_methods_Cons[OF Cons.prems[unfolded x]] obtain ps m1 rs m2 where
    e1: "extractArgs sig (Params_of sig) ''in%d'' m = (Inr ps, m1)" and
    e2: "extractArgs sig (Results_of sig) ''out%d'' m1 = (Inr rs, m2)" and
    rec: "Mock_methods rest (acc @ [\<lparr>method_Name = mname, Params = ps, Returns = rs\<rparr>]) m2
            = (Inr ms, m')"
    by blast
  let ?q = "\<lparr>method_Name = mname, Params = ps, Returns = rs\<rparr>"
  from Cons.IH[OF rec] have len: "length ms = length acc + 1 + length rest"
    and tk: "take (length acc + 1) ms = acc @ [?q]"
    and rest: "\<forall>i < length rest.
        method_Name (ms ! (length acc + 1 + i)) = fst (rest ! i) \<and>
        (\<exists>ma mb mc.
           extractArgs (snd (rest ! i)) (Params_of (snd (rest ! i))) ''in%d'' ma
             = (Inr (Params (ms ! (length acc + 1 + i))), mb) \<and>
           extractArgs (snd (rest ! i)) (Results_of (snd (rest ! i))) ''out%d'' mb
             = (Inr (Returns (ms ! (length acc + 1 + i))), mc))"
    by simp_all
  have "take (length acc) ms = take (length acc) (take (length acc + 1) ms)"
    by simp
  also have "\<dots> = acc" unfolding tk by simp
  finally have tk0: "take (length acc) ms = acc" .
  have "ms ! length acc = take (length acc + 1) ms ! length acc"
    by simp
  also have "\<dots> = ?q" unfolding tk by simp
  finally have at: "ms ! length acc = ?q" .
  have "\<forall>i < length (x # rest).
        method_Name (ms ! (length acc + i)) = fst ((x # rest) ! i) \<and>
        (\<exists>ma mb mc.
           extractArgs (snd ((x # rest) ! i)) (Params_of (snd ((x # rest) ! i))) ''in%d'' ma
             = (Inr (Params (ms ! (length acc + i))), mb) \<and>
           extractArgs (snd ((x # rest) ! i)) (Results_of (snd ((x # rest) ! i))) ''out%d'' mb
             = (Inr (Returns (ms ! (length acc + i))), mc))"
  proof (intro allI impI)
    fix i assume i: "i < length (x # rest)"
    show "method_Name (ms ! (length acc + i)) = fst ((x # rest) ! i) \<and>
        (\<exists>ma mb mc.
           extractArgs (snd ((x # rest) ! i)) (Params_of (snd ((x # rest) ! i))) ''in%d'' ma
             = (Inr (Params (ms ! (length acc + i))), mb) \<and>
           extractArgs (snd ((x # rest) ! i)) (Results_of (snd ((x # rest) ! i))) ''out%d'' mb
             = (Inr (Returns (ms ! (length acc + i))), mc))"
    proof (cases i)
      case 0
      with at x e1 e2 show ?thesis by auto
    next
      case (Suc i')
      with i have "i' < length rest" by simp
      with rest Suc show ?thesis by (simp add: add.commute add.left_commute)
    qed
  qed
  with len tk0 show ?case by simp
qed

text \<open>
  Claim C3. For every method of an extracted interface, parameters and results are named
  independently, each list with its own 1-based counter: a variable declared without a name
  at position \<open>k\<close> of the parameter list is named \<^verbatim>\<open>in<k>\<close>, one at position \<open>k\<close> of the
  result list \<^verbatim>\<open>out<k>\<close>, and a declared name is kept unchanged.
\<close>

theorem positional_names:
  assumes "Mock_methods iiface [] m = (Inr ms, m')" and "i < length iiface"
  shows "method_Name (ms ! i) = fst (iiface ! i)
       \<and> named_by ''in'' (Params_of (snd (iiface ! i))) (Params (ms ! i))
       \<and> named_by ''out'' (Results_of (snd (iiface ! i))) (Returns (ms ! i))"
proof -
  from Mock_methods_Inr[OF assms(1)] assms(2) obtain ma mb mc where
    nm: "method_Name (ms ! i) = fst (iiface ! i)" and
    e1: "extractArgs (snd (iiface ! i)) (Params_of (snd (iiface ! i))) ''in%d'' ma
           = (Inr (Params (ms ! i)), mb)" and
    e2: "extractArgs (snd (iiface ! i)) (Results_of (snd (iiface ! i))) ''out%d'' mb
           = (Inr (Returns (ms ! i)), mc)"
    by auto
  have "named_by ''in'' (Params_of (snd (iiface ! i))) (Params (ms ! i))"
    unfolding named_by_def
    using extractArgs_Inr(1)[OF e1] extractArgs_Inr(2)[OF e1] by (simp add: Sprintf_in)
  moreover have "named_by ''out'' (Results_of (snd (iiface ! i))) (Returns (ms ! i))"
    unfolding named_by_def
    using extractArgs_Inr(1)[OF e2] extractArgs_Inr(2)[OF e2] by (simp add: Sprintf_out)
  ultimately show ?thesis using nm by simp
qed

lemma ex_Greet_methods:
  "Mock_methods [(''Greet'', ex_Greet)] [] ex_Mocker =
     (Inr [\<lparr>method_Name = ''Greet'',
            Params = [\<lparr>Name = ''name'', Type = ''string'', Variadic = False\<rparr>,
                      \<lparr>Name = ''in2'', Type = ''io.Reader'', Variadic = False\<rparr>],
            Returns = [\<lparr>Name = ''out1'', Type = ''string'', Variadic = False\<rparr>,
                       \<lparr>Name = ''out2'', Type = ''error'', Variadic = False\<rparr>]\<rparr>],
      ex_Mocker\<lparr>imports' := [(''io'', True)]\<rparr>)"
  by (simp add: ex_Greet_def ex_Mocker_def ex_io_def extractArgs_def TypeString_def
      packageQualifier_def Let_def itoa_digit)

theorem positional_names_witness:
  "named_by ''in'' [(''name'', Basic ''string''), ([], Named (Some ex_io) ''Reader'')]
     [\<lparr>Name = ''name'', Type = ''string'', Variadic = False\<rparr>,
      \<lparr>Name = ''in2'', Type = ''io.Reader'', Variadic = False\<rparr>]
   \<and> named_by ''out'' [([], Basic ''string''), ([], Named None ''error'')]
     [\<lparr>Name = ''out1'', Type = ''string'', Variadic = False\<rparr>,
      \<lparr>Name = ''out2'', Type = ''error'', Variadic = False\<rparr>]"
  using positional_names[OF ex_Greet_methods, of 0] by (simp add: ex_Greet_def)

text \<open>
  Claim C4. The claim restricts the variadic mark to the last variable of the parameter list
  of a variadic signature. \<^verbatim>\<open>extractArgs\<close> applies its test to whichever list it is given,
  so for \<^verbatim>\<open>F(xs ...int) []string\<close> the descriptor of the result is marked variadic, and
  the result type is rendered as \<^verbatim>\<open>...string\<close>.
\<close>

theorem variadic_result_marked:
  "extractArgs ex_F (Results_of ex_F) ''out%d'' ex_Mocker =
     (Inr [\<lparr>Name = ''out1'', Type = ''[]string'', Variadic = True\<rparr>], ex_Mocker)
   \<and> ReturnArglist \<lparr>method_Name = ''F'',
        Params = [\<lparr>Name = ''xs'', Type = ''[]int'', Variadic = True\<rparr>],
        Returns = [\<lparr>Name = ''out1'', Type = ''[]string'', Variadic = True\<rparr>]\<rparr> = Inr ''...string''"
  by (simp add: ex_F_def ex_Mocker_def extractArgs_def TypeString_def Let_def
      ReturnArglist_def param_TypeString_def itoa_digit)

text \<open>
  Claim C10. The claim says that extraction never panics. For \<^verbatim>\<open>G(xs ...int) T\<close> the
  two-byte prefix of the rendered result type \<^verbatim>\<open>T\<close> is taken, and \<^verbatim>\<open>extractArgs\<close>
  panics.
\<close>

theorem extractArgs_panics:
  "extractArgs ex_G (Results_of ex_G) ''out%d'' ex_Mocker
     = (Inl (Panic ''slice bounds out of range''), ex_Mocker)"
  by (simp add: ex_G_def ex_Mocker_def ex_example_def extractArgs_def TypeString_def
      packageQualifier_def Let_def)

subsection \<open>The Mocker during extraction\<close>

lemma grows_refl: "grows m m"
  by (simp add: grows_def)

lemma grows_trans: "grows a b \<Longrightarrow> grows b c \<Longrightarrow> grows a c"
  by (auto simp: grows_def)

lemma keys_update: "set (keys (AList.update k v al)) = insert k (set (keys al))"
  by (auto simp: keys_def update_keys)

lemma grows_packageQualifier: "grows m (snd (packageQualifier pkg m))"
  using keys_update[of "pkg_path pkg" True "imports' m"]
  by (auto simp: grows_def packageQualifier_def distinct_update keys_def)

lemma writeType_preserves:
  fixes R :: "'s \<Rightarrow> 's \<Rightarrow> bool"
  assumes qf: "\<And>p s. R s (snd (qf p s))"
    and refl: "\<And>s. R s s"
    and trans: "\<And>a b c. R a b \<Longrightarrow> R b c \<Longrightarrow> R a c"
  shows "R s (snd (writeType t qf s))" and "R s (snd (writeVars vs v f qf s))"
  using qf
proof (induction t qf s and vs v f qf s rule: writeType_writeVars.induct)
  case (1 n qf s)
  then show ?case by (simp add: refl)
next
  case (2 n qf s)
  then show ?case by (simp add: refl)
next
  case (3 p n qf s)
  from 3[of s p] show ?case by (auto split: prod.splits)
next
  case (4 t qf s)
  from 4(1)[OF 4(2)] show ?case by (auto split: prod.splits)
next
  case (5 t qf s)
  from 5(1)[OF 5(2)] show ?case by (auto split: prod.splits)
next
  case (6 n t qf s)
  from 6(1)[OF 6(2)] show ?case by (auto split: prod.splits)
next
  case (7 k t qf s)
  obtain rk s1 where a: "writeType k qf s = (rk, s1)" by (cases "writeType k qf s")
  obtain rt s2 where b: "writeType t qf s1 = (rt, s2)" by (cases "writeType t qf s1")
  from 7(1)[OF 7(3)] a have "R s s1" by simp
  moreover from 7(2)[OF HOL.refl a[symmetric] 7(3)] b have "R s1 s2" by simp
  ultimately have "R s s2" by (rule trans)
  with a b show ?case by simp
next
  case (8 d t qf s)
  from 8(1)[OF HOL.refl HOL.refl 8(2)] show ?case by (auto simp: Let_def split: prod.splits)
next
  case (9 ps rs v qf s)
  obtain rp s1 where a: "writeVars ps v True qf s = (rp, s1)"
    by (cases "writeVars ps v True qf s")
  from 9(1)[OF 9(5)] a have r1: "R s s1" by simp
  show ?case
  proof (cases rs)
    case Nil
    with a r1 show ?thesis by simp
  next
    case (Cons x xs)
    obtain n t where x: "x = (n, t)" by (cases x)
    show ?thesis
    proof (cases "xs = []")
      case True
      show ?thesis
      proof (cases "n = []")
        case True
        from 9(2)[OF HOL.refl a[symmetric] Cons x[symmetric] \<open>xs = []\<close> True 9(5)]
        have "R s1 (snd (writeType t qf s1))" .
        with r1 have "R s (snd (writeType t qf s1))" by (rule trans)
        with a Cons x \<open>xs = []\<close> True show ?thesis by (auto split: prod.splits)
      next
        case False
        from 9(3)[OF HOL.refl a[symmetric] Cons x[symmetric] \<open>xs = []\<close> False 9(5)]
        have "R s1 (snd (writeVars rs False True qf s1))" .
        with r1 have "R s (snd (writeVars rs False True qf s1))" by (rule trans)
        with a Cons x \<open>xs = []\<close> False show ?thesis by (auto split: prod.splits)
      qed
    next
      case False
      then obtain y ys where xs: "xs = y # ys" by (cases xs) auto
      from 9(4)[OF HOL.refl a[symmetric] Cons x[symmetric] xs 9(5)]
      have "R s1 (snd (writeVars rs False True qf s1))" .
      with r1 have "R s (snd (writeVars rs False True qf s1))" by (rule trans)
      with a Cons x xs show ?thesis by (auto split: prod.splits)
    qed
  qed
next
  case (10 variadic first qf s)
  then show ?case by (simp add: refl)
next
  case (11 n t vs variadic first qf s)
  note q = \<open>\<And>p s. R s (snd (qf p s))\<close>
  show ?case
  proof (cases "variadic \<and> vs = []")
    case True
    show ?thesis
    proof (cases t)
      case (Basic x)
      from 11(1)[OF HOL.refl HOL.refl True Basic q] True Basic
      show ?thesis by (auto simp del: writeType.simps simp: Let_def split: prod.splits)
    next
      case (Named x y)
      from 11(2)[OF HOL.refl HOL.refl True Named q] True Named
      show ?thesis by (auto simp del: writeType.simps simp: Let_def split: prod.splits)
    next
      case (Pointer x)
      from 11(3)[OF HOL.refl HOL.refl True Pointer q] True Pointer
      show ?thesis by (auto simp del: writeType.simps simp: Let_def split: prod.splits)
    next
      case (Slice x)
      from 11(4)[OF HOL.refl HOL.refl True Slice q] True Slice
      show ?thesis by (auto simp del: writeType.simps simp: Let_def split: prod.splits)
    next
      case (Array x y)
      from 11(5)[OF HOL.refl HOL.refl True Array q] True Array
      show ?thesis by (auto simp del: writeType.simps simp: Let_def split: prod.splits)
    next
      case (Map x y)
      from 11(6)[OF HOL.refl HOL.refl True Map q] True Map
      show ?thesis by (auto simp del: writeType.simps simp: Let_def split: prod.splits)
    next
      case (Chan x y)
      from 11(7)[OF HOL.refl HOL.refl True Chan q] True Chan
      show ?thesis by (auto simp del: writeType.simps simp: Let_def split: prod.splits)
    next
      case (Func x y z)
      from 11(8)[OF HOL.refl HOL.refl True Func q] True Func
      show ?thesis by (auto simp del: writeType.simps simp: Let_def split: prod.splits)
    qed
  next
    case False
    obtain r s1 where a: "writeType t qf s = (r, s1)" by (cases "writeType t qf s")
    from 11(9)[OF HOL.refl HOL.refl False q] a have r1: "R s s1" by simp
    from 11(10)[OF HOL.refl HOL.refl False HOL.refl a[symmetric] q]
    have "R s1 (snd (writeVars vs variadic False qf s1))" .
    with r1 have "R s (snd (writeVars vs variadic False qf s1))" by (rule trans)
    with a False show ?thesis by (auto simp: Let_def split: prod.splits)
  qed
qed


lemma grows_TypeString: "grows m (snd (TypeString t packageQualifier m))"
  unfolding TypeString_def
  by (rule writeType_preserves(1)[where R = grows])
     (auto intro: grows_packageQualifier grows_refl grows_trans)

lemma extractArgs_loop_panic:
  "TypeString (snd p) packageQualifier m = (tn, m1) \<Longrightarrow>
   Variadic_of sig \<and> ii = L - 1 \<and> length tn < 2 \<Longrightarrow>
   extractArgs_loop sig L fmt (p # rest) ii acc m
     = (Inl (Panic ''slice bounds out of range''), m1)"
  by (simp add: Let_def)

lemma extractArgs_loop_step:
  "TypeString (snd p) packageQualifier m = (tn, m1) \<Longrightarrow>
   \<not> (Variadic_of sig \<and> ii = L - 1 \<and> length tn < 2) \<Longrightarrow>
   extractArgs_loop sig L fmt (p # rest) ii acc m =
     extractArgs_loop sig L fmt rest (ii + 1)
       (acc @ [\<lparr>Name = (if fst p = [] then Sprintf_d fmt (ii + 1) else fst p), Type = tn,
                 Variadic = (Variadic_of sig \<and> ii = L - 1 \<and> take 2 tn = ''[]'')\<rparr>]) m1"
  by (auto simp add: Let_def)

lemma grows_extractArgs_loop: "grows m (snd (extractArgs_loop sig L fmt rest ii acc m))"
proof (induction rest arbitrary: ii acc m)
  case Nil
  then show ?case by (simp add: grows_refl)
next
  case (Cons p rest)
  obtain tn m1 where ts: "TypeString (snd p) packageQualifier m = (tn, m1)"
    by (cases "TypeString (snd p) packageQualifier m")
  from grows_TypeString[of m "snd p"] ts have g1: "grows m m1" by simp
  show ?case
  proof (cases "Variadic_of sig \<and> ii = L - 1 \<and> length tn < 2")
    case True
    from g1 show ?thesis unfolding extractArgs_loop_panic[OF ts True] by simp
  next
    case False
    from grows_trans[OF g1 Cons.IH] show ?thesis
      unfolding extractArgs_loop_step[OF ts False] .
  qed
qed

lemma grows_extractArgs: "grows m (snd (extractArgs sig list fmt m))"
  unfolding extractArgs_def by (rule grows_extractArgs_loop)

lemma grows_Mock_methods: "grows m (snd (Mock_methods iiface ms m))"
proof (induction iiface arbitrary: ms m)
  case Nil
  then show ?case by (simp add: grows_refl)
next
  case (Cons x rest)
  obtain mname sig where x: "x = (mname, sig)" by (cases x)
  obtain r1 m1 where e1: "extractArgs sig (Params_of sig) ''in%d'' m = (r1, m1)"
    by (cases "extractArgs sig (Params_of sig) ''in%d'' m")
  obtain r2 m2 where e2: "extractArgs sig (Results_of sig) ''out%d'' m1 = (r2, m2)"
    by (cases "extractArgs sig (Results_of sig) ''out%d'' m1")
  from grows_extractArgs[of m sig "Params_of sig" "''in%d''"] e1 have g1: "grows m m1" by simp
  from grows_extractArgs[of m1 sig "Results_of sig" "''out%d''"] e2 have "grows m1 m2" by simp
  with g1 have g2: "grows m m2" by (rule grows_trans)
  show ?case
  proof (cases r1)
    case (Inl e)
    with x e1 g1 show ?thesis by simp
  next
    case ps: (Inr ps)
    show ?thesis
    proof (cases r2)
      case (Inl e)
      with x e1 e2 ps g2 show ?thesis by simp
    next
      case (Inr rs)
      with x e1 e2 ps show ?thesis
        using grows_trans[OF g2 Cons.IH] by simp
    qed
  qed
qed

lemma grows_Mock_names: "grows m (snd (Mock_names scope name objs m))"
proof (induction name arbitrary: objs m)
  case Nil
  then show ?case by (simp add: grows_refl)
next
  case (Cons n rest)
  show ?case
  proof (cases "map_of scope n")
    case None
    then show ?thesis by (simp add: grows_refl)
  next
    case (Some iface)
    show ?thesis
    proof (cases "iface_methods iface")
      case None
      with Some show ?thesis by (simp add: grows_refl)
    next
      case iif: (Some iiface)
      obtain r1 m1 where e1: "Mock_methods iiface [] m = (r1, m1)"
        by (cases "Mock_methods iiface [] m")
      from grows_Mock_methods[of m iiface "[]"] e1 have g1: "grows m m1" by simp
      show ?thesis
      proof (cases r1)
        case (Inl e)
        with Some iif e1 g1 show ?thesis by simp
      next
        case (Inr ms)
        with Some iif e1 show ?thesis using grows_trans[OF g1 Cons.IH] by simp
      qed
    qed
  qed
qed

lemma grows_Mock_pkgs: "grows m (snd (Mock_pkgs rt ps name objs m))"
proof (induction ps arbitrary: objs m)
  case Nil
  then show ?case by (simp add: grows_refl)
next
  case (Cons x rest)
  obtain k pkg where x: "x = (k, pkg)" by (cases x)
  show ?case
  proof (cases "Check pkg (Mock_files (range_files rt (Files pkg)))")
    case (Inl err)
    with x show ?thesis by (simp add: grows_refl)
  next
    case (Inr scope)
    obtain r1 m1 where e1: "Mock_names scope name objs m = (r1, m1)"
      by (cases "Mock_names scope name objs m")
    from grows_Mock_names[of m scope name objs] e1 have g1: "grows m m1" by simp
    show ?thesis
    proof (cases r1)
      case (Inl e)
      with x Inr e1 g1 show ?thesis by simp
    next
      case objs1: (Inr objs1)
      with x Inr e1 show ?thesis using grows_trans[OF g1 Cons.IH] by simp
    qed
  qed
qed

lemma grows_Mock_doc: "grows m (snd (Mock_doc rt m name))"
  using grows_Mock_pkgs[of m rt "range_pkgs rt (pkgs m)" name "[]"]
  by (auto simp: Mock_doc_def grows_refl split: prod.splits sum.splits)

lemma Mock_Mocker: "fst (snd (Mock rt m w name)) = snd (Mock_doc rt m name)"
  by (auto simp: Mock_def split: prod.splits sum.splits)

lemma grows_Mock: "grows m (fst (snd (Mock rt m w name)))"
  unfolding Mock_Mocker by (rule grows_Mock_doc)

subsection \<open>The document\<close>

lemma Mock_names_Cons:
  "Mock_names scope (n # rest) objs m = (Inr res, m') \<Longrightarrow>
   \<exists>iface iiface ms m1. map_of scope n = Some iface \<and> iface_methods iface = Some iiface \<and>
      Mock_methods iiface [] m = (Inr ms, m1) \<and>
      Mock_names scope rest (objs @ [\<lparr>InterfaceName = n, Methods = ms\<rparr>]) m1 = (Inr res, m')"
  by (auto split: prod.splits sum.splits option.splits)

lemma Mock_pkgs_Cons:
  "Mock_pkgs rt ((k, pkg) # rest) name objs m = (Inr res, m') \<Longrightarrow>
   \<exists>scope objs1 m1. Check pkg (Mock_files (range_files rt (Files pkg))) = Inr scope \<and> Mock_names scope name objs m = (Inr objs1, m1) \<and>
      Mock_pkgs rt rest name objs1 m1 = (Inr res, m')"
  by (auto split: prod.splits sum.splits)

lemma Mock_names_names:
  "Mock_names scope name objs m = (Inr res, m') \<Longrightarrow>
   map InterfaceName res = map InterfaceName objs @ name"
proof (induction name arbitrary: objs m)
  case Nil
  then show ?case by simp
next
  case (Cons n rest)
  from Mock_names_Cons[OF Cons.prems] obtain ms m1 where
    "Mock_names scope rest (objs @ [\<lparr>InterfaceName = n, Methods = ms\<rparr>]) m1 = (Inr res, m')"
    by blast
  from Cons.IH[OF this] show ?case by simp
qed

lemma Mock_pkgs_names:
  "Mock_pkgs rt ps name objs m = (Inr res, m') \<Longrightarrow>
   map InterfaceName res = map InterfaceName objs @ concat (replicate (length ps) name)"
proof (induction ps arbitrary: objs m)
  case Nil
  then show ?case by simp
next
  case (Cons x rest)
  obtain k pkg where x: "x = (k, pkg)" by (cases x)
  from Mock_pkgs_Cons[OF Cons.prems[unfolded x]] obtain scope objs1 m1 where
    a: "Mock_names scope name objs m = (Inr objs1, m1)" and
    b: "Mock_pkgs rt rest name objs1 m1 = (Inr res, m')"
    by blast
  from Cons.IH[OF b] Mock_names_names[OF a] show ?case by simp
qed

lemma Mock_doc_Inr:
  "Mock_doc rt m name = (Inr d, m') \<Longrightarrow>
   name \<noteq> [] \<and>
   (\<exists>objs. Mock_pkgs rt (range_pkgs rt (pkgs m)) name [] m = (Inr objs, m') \<and>
      d = \<lparr>PackageName = pkgName m, Objects = objs,
            Imports = moqImports @ map fst (range_imports rt (imports' m'))\<rparr>)"
  by (auto simp: Mock_doc_def split: if_splits prod.splits sum.splits)

lemma valid_runtime_pkgs_length: "valid_runtime rt \<Longrightarrow> length (range_pkgs rt m) = length m"
  by (metis valid_runtime_def mset_eq_length)

lemma distinct_concat_replicate:
  "xs \<noteq> [] \<Longrightarrow> distinct (concat (replicate n xs)) \<longleftrightarrow> n = 0 \<or> (n = 1 \<and> distinct xs)"
proof (cases n)
  case 0
  then show ?thesis by simp
next
  case (Suc k)
  assume ne: "xs \<noteq> []"
  show ?thesis
  proof (cases k)
    case 0
    with Suc show ?thesis by simp
  next
    case (Suc j)
    with \<open>n = Suc k\<close> ne show ?thesis by (cases xs) auto
  qed
qed

text \<open>
  Claim C7, as amended. \<^verbatim>\<open>Mock\<close> appends one descriptor for every pair of a parsed package
  and a requested name: the interface names of \<^verbatim>\<open>doc.Objects\<close> are the requested names,
  repeated once for every parsed package. They are pairwise distinct exactly when no package
  was parsed, or one package was parsed and the requested names are pairwise distinct.
\<close>

theorem Objects_names:
  assumes "valid_runtime rt" and "Mock_doc rt m name = (Inr d, m')"
  shows "map InterfaceName (Objects d) = concat (replicate (length (pkgs m)) name)
       \<and> (distinct (map InterfaceName (Objects d))
            \<longleftrightarrow> pkgs m = [] \<or> (length (pkgs m) = 1 \<and> distinct name))"
proof -
  from Mock_doc_Inr[OF assms(2)] obtain objs where ne: "name \<noteq> []"
    and p: "Mock_pkgs rt (range_pkgs rt (pkgs m)) name [] m = (Inr objs, m')"
    and d: "Objects d = objs" by auto
  from Mock_pkgs_names[OF p] d valid_runtime_pkgs_length[OF assms(1)]
  have eq: "map InterfaceName (Objects d) = concat (replicate (length (pkgs m)) name)" by simp
  show ?thesis unfolding eq using distinct_concat_replicate[OF ne] by simp
qed

lemma ex_two_doc:
  "Mock_doc rt_id ex_two [''B''] =
     (Inr \<lparr>PackageName = ''example'',
           Objects = [\<lparr>InterfaceName = ''B'',
                        Methods = [\<lparr>method_Name = ''Ping'', Params = [], Returns = []\<rparr>]\<rparr>,
                      \<lparr>InterfaceName = ''B'',
                        Methods = [\<lparr>method_Name = ''Ping'', Params = [], Returns = []\<rparr>]\<rparr>],
           Imports = [''sync'']\<rparr>, ex_two)"
  by (simp add: Mock_doc_def rt_id_def ex_two_def ex_B_def extractArgs_def moqImports_def)

text \<open>
  The claim as stated fails: with two parsed packages that both declare \<^verbatim>\<open>B\<close>, the request
  for \<^verbatim>\<open>B\<close> yields two descriptors named \<^verbatim>\<open>B\<close>.
\<close>

theorem Objects_names_counterexample:
  "\<exists>d m'. Mock_doc rt_id ex_two [''B''] = (Inr d, m')
     \<and> \<not> distinct (map InterfaceName (Objects d))"
  unfolding ex_two_doc by simp

lemma ex_AB_doc:
  "Mock_doc rt_id ex_AB [''A'', ''B''] =
     (Inr \<lparr>PackageName = ''example'',
           Objects = [\<lparr>InterfaceName = ''A'',
                        Methods = [\<lparr>method_Name = ''Read'',
                          Params = [\<lparr>Name = ''r'', Type = ''io.Reader'', Variadic = False\<rparr>],
                          Returns = []\<rparr>]\<rparr>,
                      \<lparr>InterfaceName = ''B'',
                        Methods = [\<lparr>method_Name = ''Ping'', Params = [], Returns = []\<rparr>]\<rparr>],
           Imports = [''sync'', ''io'']\<rparr>, ex_AB\<lparr>imports' := [(''io'', True)]\<rparr>)"
  by (simp add: Mock_doc_def rt_id_def ex_AB_def ex_A_def ex_B_def ex_io_def extractArgs_def
      moqImports_def TypeString_def packageQualifier_def Let_def)

theorem Objects_names_witness:
  "valid_runtime rt_id \<and>
   distinct (map InterfaceName
     [\<lparr>InterfaceName = ''A'',
        Methods = [\<lparr>method_Name = ''Read'',
          Params = [\<lparr>Name = ''r'', Type = ''io.Reader'', Variadic = False\<rparr>],
          Returns = []\<rparr>]\<rparr>,
      \<lparr>InterfaceName = ''B'',
        Methods = [\<lparr>method_Name = ''Ping'', Params = [], Returns = []\<rparr>]\<rparr>])"
  using Objects_names[OF valid_rt_id ex_AB_doc] valid_rt_id by (simp add: ex_AB_def)

lemma valid_runtime_imports_set: "valid_runtime rt \<Longrightarrow> set (range_imports rt m) = set m"
  by (metis valid_runtime_def set_mset_mset)

lemma Mock_doc_Imports:
  assumes "valid_runtime rt" and "Mock_doc rt m name = (Inr d, m')"
  shows "mset (Imports d) = mset (moqImports @ keys (imports' m'))"
proof -
  from Mock_doc_Inr[OF assms(2)]
  have "Imports d = moqImports @ map fst (range_imports rt (imports' m'))" by auto
  moreover from assms(1) have "mset (range_imports rt (imports' m')) = mset (imports' m')"
    by (simp add: valid_runtime_def)
  then have "mset (map fst (range_imports rt (imports' m'))) = mset (map fst (imports' m'))"
    by (metis mset_map)
  ultimately show ?thesis by (simp add: keys_def)
qed

text \<open>
  Claim C8, as amended. The document is built anew by every call of \<^verbatim>\<open>Mock\<close>, but the
  import set is a field of the Mocker, made by \<^verbatim>\<open>New\<close> and never emptied: a call leaves
  every key it found in the set, and the import list of a later call on the same Mocker is
  \<^verbatim>\<open>sync\<close> and the keys of the set after that call, so it contains every path the earlier
  call put there.
\<close>

theorem imports_persist:
  assumes "valid_runtime rt"
    and "Mock rt m w name1 = (e1, m1, w1)"
    and "Mock_doc rt m1 name2 = (Inr d2, m2)"
  shows "set (keys (imports' m)) \<subseteq> set (keys (imports' m1))
       \<and> set (keys (imports' m1)) \<subseteq> set (Imports d2)
       \<and> mset (Imports d2) = mset (moqImports @ keys (imports' m2))"
proof -
  from grows_Mock[of m rt w name1] assms(2)
  have a: "set (keys (imports' m)) \<subseteq> set (keys (imports' m1))" by (simp add: grows_def)
  from grows_Mock_doc[of m1 rt name2] assms(3)
  have b: "set (keys (imports' m1)) \<subseteq> set (keys (imports' m2))" by (simp add: grows_def)
  have c: "mset (Imports d2) = mset (moqImports @ keys (imports' m2))"
    by (rule Mock_doc_Imports[OF assms(1) assms(3)])
  then have "set (Imports d2) = set (moqImports @ keys (imports' m2))"
    by (metis set_mset_mset)
  with b have "set (keys (imports' m1)) \<subseteq> set (Imports d2)" by auto
  with a c show ?thesis by simp
qed

lemma ex_AB_Mock_A:
  "fst (snd (Mock rt_id ex_AB ex_buffer [''A''])) = ex_AB\<lparr>imports' := [(''io'', True)]\<rparr>"
  unfolding Mock_Mocker
  by (simp add: Mock_doc_def rt_id_def ex_AB_def ex_A_def ex_B_def ex_io_def extractArgs_def
      moqImports_def TypeString_def packageQualifier_def Let_def)

lemma ex_AB_doc_B_second:
  "Mock_doc rt_id (ex_AB\<lparr>imports' := [(''io'', True)]\<rparr>) [''B''] =
     (Inr \<lparr>PackageName = ''example'',
           Objects = [\<lparr>InterfaceName = ''B'',
                        Methods = [\<lparr>method_Name = ''Ping'', Params = [], Returns = []\<rparr>]\<rparr>],
           Imports = [''sync'', ''io'']\<rparr>, ex_AB\<lparr>imports' := [(''io'', True)]\<rparr>)"
  by (simp add: Mock_doc_def rt_id_def ex_AB_def ex_A_def ex_B_def ex_io_def extractArgs_def
      moqImports_def TypeString_def packageQualifier_def Let_def)

lemma ex_AB_doc_B_fresh:
  "Mock_doc rt_id ex_AB [''B''] =
     (Inr \<lparr>PackageName = ''example'',
           Objects = [\<lparr>InterfaceName = ''B'',
                        Methods = [\<lparr>method_Name = ''Ping'', Params = [], Returns = []\<rparr>]\<rparr>],
           Imports = [''sync'']\<rparr>, ex_AB)"
  by (simp add: Mock_doc_def rt_id_def ex_AB_def ex_A_def ex_B_def ex_io_def extractArgs_def
      moqImports_def TypeString_def packageQualifier_def Let_def)

text \<open>
  The claim as stated fails: after \<^verbatim>\<open>Mock(w, "A")\<close>, the call for \<^verbatim>\<open>B\<close> on the same
  Mocker imports \<^verbatim>\<open>io\<close>, which the same call on the Mocker as \<^verbatim>\<open>New\<close> made it does not.
\<close>

theorem imports_persist_counterexample:
  "Imports (projr (fst (Mock_doc rt_id (fst (snd (Mock rt_id ex_AB ex_buffer [''A''])))
      [''B''])))
     = [''sync'', ''io'']
   \<and> Imports (projr (fst (Mock_doc rt_id ex_AB [''B'']))) = [''sync'']"
  unfolding ex_AB_Mock_A ex_AB_doc_B_second ex_AB_doc_B_fresh by simp

theorem imports_persist_witness:
  "valid_runtime rt_id
   \<and> set (keys (imports' (ex_AB\<lparr>imports' := [(''io'', True)]\<rparr>)))
       \<subseteq> set [''sync'', ''io'']"
proof -
  have h2: "Mock rt_id ex_AB ex_buffer [''A''] =
      (fst (Mock rt_id ex_AB ex_buffer [''A'']), ex_AB\<lparr>imports' := [(''io'', True)]\<rparr>,
       snd (snd (Mock rt_id ex_AB ex_buffer [''A''])))"
    using ex_AB_Mock_A by (metis prod.collapse)
  from imports_persist[OF valid_rt_id h2 ex_AB_doc_B_second] valid_rt_id
  show ?thesis by simp
qed

lemma packageQualifier_result:
  "fst (packageQualifier p m) = (if pkg_name p = pkgName m then [] else pkg_name p)"
  by (auto simp: packageQualifier_def)

lemma packageQualifier_imports:
  "set (keys (imports' (snd (packageQualifier p m)))) =
     (if pkg_name p = pkgName m then set (keys (imports' m))
      else insert (pkg_path p) (set (keys (imports' m))))"
  by (auto simp: packageQualifier_def keys_update)

lemma Imports_count:
  assumes "valid_runtime rt" and "distinct (keys (imports' m))"
    and "Mock_doc rt m name = (Inr d, m')"
  shows "count_list (Imports d) p =
           (if p = ''sync'' then 1 else 0) + (if p \<in> set (keys (imports' m')) then 1 else 0)"
proof -
  from grows_Mock_doc[of m rt name] assms(2,3) have dk: "distinct (keys (imports' m'))"
    by (simp add: grows_def)
  have "count_list (Imports d) p = count (mset (Imports d)) p" by (simp add: count_mset)
  also have "\<dots> = count (mset (moqImports @ keys (imports' m'))) p"
    using Mock_doc_Imports[OF assms(1,3)] by simp
  also have "\<dots> = (if p = ''sync'' then 1 else 0) + count (mset (keys (imports' m'))) p"
    by (simp add: moqImports_def)
  also have "count (mset (keys (imports' m'))) p = (if p \<in> set (keys (imports' m')) then 1 else 0)"
    using dk by (simp add: distinct_count_atmost_1)
  finally show ?thesis .
qed

text \<open>
  Claim C5. The qualifier is empty exactly when the package name equals the target package
  name, and otherwise it is the package name and the path enters the import set
  (\<open>packageQualifier_result\<close>, \<open>packageQualifier_imports\<close>); a path in the import set occurs
  once in the import list, and once more if it is \<^verbatim>\<open>sync\<close> (\<open>Imports_count\<close>). So for
  \<^verbatim>\<open>L { Use(l sync.Locker) }\<close> the import block lists \<^verbatim>\<open>sync\<close> twice, where the claim
  says exactly once.
\<close>

theorem sync_imported_twice:
  "Mock_doc rt_id ex_L [''L''] =
     (Inr \<lparr>PackageName = ''example'',
           Objects = [\<lparr>InterfaceName = ''L'',
                        Methods = [\<lparr>method_Name = ''Use'',
                          Params = [\<lparr>Name = ''l'', Type = ''sync.Locker'', Variadic = False\<rparr>],
                          Returns = []\<rparr>]\<rparr>],
           Imports = [''sync'', ''sync'']\<rparr>, ex_L\<lparr>imports' := [(''sync'', True)]\<rparr>)
   \<and> count_list [''sync'', ''sync''] ''sync'' = 2"
  by (simp add: Mock_doc_def rt_id_def ex_L_def ex_sync_def extractArgs_def
      moqImports_def TypeString_def packageQualifier_def Let_def)

subsection \<open>Rendering\<close>

lemma extractArgs_loop_ok:
  "extractArgs_loop sig L fmt rest ii acc m = (Inr ps, m') \<Longrightarrow> list_all param_ok acc \<Longrightarrow>
   list_all param_ok ps"
proof (induction rest arbitrary: ii acc m)
  case Nil
  then show ?case by simp
next
  case (Cons p rest)
  obtain tn m1 where ts: "TypeString (snd p) packageQualifier m = (tn, m1)"
    by (cases "TypeString (snd p) packageQualifier m")
  let ?q = "\<lparr>Name = (if fst p = [] then Sprintf_d fmt (ii + 1) else fst p), Type = tn,
             Variadic = (Variadic_of sig \<and> ii = L - 1 \<and> take 2 tn = ''[]'')\<rparr>"
  have np: "\<not> (Variadic_of sig \<and> ii = L - 1 \<and> length tn < 2)"
  proof
    assume "Variadic_of sig \<and> ii = L - 1 \<and> length tn < 2"
    from extractArgs_loop_panic[OF ts this] Cons.prems(1) show False by simp
  qed
  from Cons.prems(1) have rec:
    "extractArgs_loop sig L fmt rest (ii + 1) (acc @ [?q]) m1 = (Inr ps, m')"
    unfolding extractArgs_loop_step[OF ts np] .
  have "param_ok ?q" using np by (auto simp: param_ok_def)
  with Cons.prems(2) have "list_all param_ok (acc @ [?q])" by simp
  from Cons.IH[OF rec this] show ?case .
qed

lemma extractArgs_ok:
  "extractArgs sig list fmt m = (Inr ps, m') \<Longrightarrow> list_all param_ok ps"
  unfolding extractArgs_def by (erule extractArgs_loop_ok) simp

lemma Mock_methods_ok:
  "Mock_methods iiface acc m = (Inr ms, m') \<Longrightarrow> list_all method_ok acc \<Longrightarrow>
   list_all method_ok ms"
proof (induction iiface arbitrary: acc m)
  case Nil
  then show ?case by simp
next
  case (Cons x rest)
  obtain mname sig where x: "x = (mname, sig)" by (cases x)
  from Mock_methods_Cons[OF Cons.prems(1)[unfolded x]] obtain ps m1 rs m2 where
    e1: "extractArgs sig (Params_of sig) ''in%d'' m = (Inr ps, m1)" and
    e2: "extractArgs sig (Results_of sig) ''out%d'' m1 = (Inr rs, m2)" and
    rec: "Mock_methods rest (acc @ [\<lparr>method_Name = mname, Params = ps, Returns = rs\<rparr>]) m2
            = (Inr ms, m')"
    by blast
  from extractArgs_ok[OF e1] extractArgs_ok[OF e2]
  have "method_ok \<lparr>method_Name = mname, Params = ps, Returns = rs\<rparr>"
    by (simp add: method_ok_def)
  with Cons.prems(2)
  have "list_all method_ok (acc @ [\<lparr>method_Name = mname, Params = ps, Returns = rs\<rparr>])"
    by simp
  from Cons.IH[OF rec this] show ?case .
qed

lemma Mock_names_ok:
  "Mock_names scope name objs m = (Inr res, m') \<Longrightarrow> list_all obj_ok objs \<Longrightarrow>
   list_all obj_ok res"
proof (induction name arbitrary: objs m)
  case Nil
  then show ?case by simp
next
  case (Cons n rest)
  from Mock_names_Cons[OF Cons.prems(1)] obtain iiface ms m1 where
    a: "Mock_methods iiface [] m = (Inr ms, m1)" and
    rec: "Mock_names scope rest (objs @ [\<lparr>InterfaceName = n, Methods = ms\<rparr>]) m1 = (Inr res, m')"
    by blast
  from Mock_methods_ok[OF a]
  have "obj_ok \<lparr>InterfaceName = n, Methods = ms\<rparr>"
    by (simp add: obj_ok_def)
  with Cons.prems(2)
  have "list_all obj_ok (objs @ [\<lparr>InterfaceName = n, Methods = ms\<rparr>])"
    by simp
  from Cons.IH[OF rec this] show ?case .
qed

lemma Mock_pkgs_ok:
  "Mock_pkgs rt ps name objs m = (Inr res, m') \<Longrightarrow> list_all obj_ok objs \<Longrightarrow>
   list_all obj_ok res"
proof (induction ps arbitrary: objs m)
  case Nil
  then show ?case by simp
next
  case (Cons x rest)
  obtain k pkg where x: "x = (k, pkg)" by (cases x)
  from Mock_pkgs_Cons[OF Cons.prems(1)[unfolded x]] obtain scope objs1 m1 where
    a: "Mock_names scope name objs m = (Inr objs1, m1)" and
    b: "Mock_pkgs rt rest name objs1 m1 = (Inr res, m')"
    by blast
  from Cons.IH[OF b Mock_names_ok[OF a Cons.prems(2)]] show ?case .
qed

lemma Mock_doc_ok: "Mock_doc rt m name = (Inr d, m') \<Longrightarrow> list_all obj_ok (Objects d)"
  using Mock_doc_Inr[of rt m name d m'] Mock_pkgs_ok[of _ _ name "[]" m _ m'] by auto

lemma param_TypeString_ok: "param_ok p \<Longrightarrow> \<not> isl (param_TypeString p)"
  by (auto simp: param_ok_def param_TypeString_def)

lemma param_String_ok: "param_ok p \<Longrightarrow> \<not> isl (param_String p)"
  using param_TypeString_ok[of p] by (auto simp: param_String_def split: sum.splits)

lemma collect_ok: "list_all (\<lambda>x. \<not> isl (f x)) xs \<Longrightarrow> \<not> isl (collect f xs)"
  by (induction xs) (auto split: sum.splits)

lemma Arglist_ok: "method_ok mt \<Longrightarrow> \<not> isl (Arglist mt)"
proof -
  assume "method_ok mt"
  then have "list_all (\<lambda>x. \<not> isl (param_String x)) (Params mt)"
    by (auto simp: method_ok_def list_all_iff param_String_ok)
  from collect_ok[OF this] show ?thesis by (auto simp: Arglist_def split: sum.splits)
qed

lemma ReturnArglist_ok: "method_ok mt \<Longrightarrow> \<not> isl (ReturnArglist mt)"
proof -
  assume "method_ok mt"
  then have "list_all (\<lambda>x. \<not> isl (param_TypeString x)) (Returns mt)"
    by (auto simp: method_ok_def list_all_iff param_TypeString_ok)
  from collect_ok[OF this] show ?thesis by (auto simp: ReturnArglist_def split: sum.splits)
qed

lemma emits_ok_append [simp]: "emits_ok (xs @ ys) \<longleftrightarrow> emits_ok xs \<and> emits_ok ys"
  by (simp add: emits_ok_def)

lemma emits_ok_Cons [simp]: "emits_ok (x # xs) \<longleftrightarrow> \<not> isl x \<and> emits_ok xs"
  by (simp add: emits_ok_def)

lemma emits_ok_Nil [simp]: "emits_ok []"
  by (simp add: emits_ok_def)

lemma emits_ok_concat_map: "(\<And>x. x \<in> set xs \<Longrightarrow> emits_ok (f x)) \<Longrightarrow> emits_ok (concat (map f xs))"
  by (induction xs) auto

lemma tmpl_Imports_ok: "emits_ok (tmpl_Imports path)"
  by (simp add: tmpl_Imports_def)

lemma tmpl_usage_ok: "method_ok mt \<Longrightarrow> emits_ok (tmpl_usage mt)"
  using Arglist_ok[of mt] ReturnArglist_ok[of mt] by (simp add: tmpl_usage_def)

lemma tmpl_fields_ok: "method_ok mt \<Longrightarrow> emits_ok (tmpl_fields mt)"
  using Arglist_ok[of mt] ReturnArglist_ok[of mt] by (simp add: tmpl_fields_def)

lemma tmpl_CallsTo_ok: "emits_ok (tmpl_CallsTo mt)"
  by (simp add: tmpl_CallsTo_def tmpl_CallsTo_Params_def emits_ok_concat_map)

lemma tmpl_impl_ok: "method_ok mt \<Longrightarrow> emits_ok (tmpl_impl ob mt)"
  using Arglist_ok[of mt] ReturnArglist_ok[of mt]
  by (auto simp: tmpl_impl_def tmpl_impl_fields_def tmpl_impl_values_def emits_ok_concat_map
      split: sum.splits)

lemma tmpl_Objects_ok: "obj_ok ob \<Longrightarrow> emits_ok (tmpl_Objects ob)"
  by (simp add: tmpl_Objects_def obj_ok_def list_all_iff emits_ok_concat_map
      tmpl_usage_ok tmpl_fields_ok tmpl_CallsTo_ok tmpl_impl_ok)

lemma moqTemplate_ok: "list_all obj_ok (Objects d) \<Longrightarrow> emits_ok (moqTemplate d)"
  by (simp add: moqTemplate_def list_all_iff emits_ok_concat_map tmpl_Imports_ok tmpl_Objects_ok)

lemma Write_unbounded: "room w = None \<Longrightarrow> Write w p = (None, w\<lparr>written := written w @ p\<rparr>)"
  by (simp add: Write_def)

lemma Write_prefix: "prefix (written w) (written (snd (Write w p)))"
  by (auto simp: Write_def split: option.splits)

lemma Write_error: "fst (Write w p) = Some e \<Longrightarrow> e = WriteError"
  by (auto simp: Write_def split: option.splits if_splits)

lemma Execute_emits_ok:
  "emits_ok es \<Longrightarrow> room w = None \<Longrightarrow>
   Execute_emits w es = (None, w\<lparr>written := written w @ emit_text es\<rparr>)"
proof (induction es arbitrary: w)
  case Nil
  then show ?case by (simp add: emit_text_def)
next
  case (Cons x es)
  from Cons.prems(1) obtain t where x: "x = Inr t" by (cases x) auto
  let ?w1 = "w\<lparr>written := written w @ t\<rparr>"
  from Cons.prems have "Execute_emits ?w1 es = (None, ?w1\<lparr>written := written ?w1 @ emit_text es\<rparr>)"
    by (intro Cons.IH) simp_all
  with x Cons.prems(2) show ?case
    by (simp add: Write_unbounded emit_text_def)
qed

lemma Execute_emits_error:
  "Execute_emits w es = (Some e, w') \<Longrightarrow> e = WriteError \<or> Inl e \<in> set es"
proof (induction es arbitrary: w)
  case Nil
  then show ?case by simp
next
  case (Cons x es)
  show ?case
  proof (cases x)
    case (Inl e0)
    with Cons.prems show ?thesis by simp
  next
    case (Inr t)
    obtain r w1 where wr: "Write w t = (r, w1)" by (cases "Write w t")
    show ?thesis
    proof (cases r)
      case None
      with Inr wr Cons.prems have "Execute_emits w1 es = (Some e, w')" by simp
      from Cons.IH[OF this] show ?thesis by auto
    next
      case (Some e1)
      with Inr wr Cons.prems have "e1 = e" by simp
      with Some wr Write_error[of w t e] show ?thesis by simp
    qed
  qed
qed

lemma Execute_emits_prefix: "prefix (written w) (written (snd (Execute_emits w es)))"
proof (induction es arbitrary: w)
  case Nil
  then show ?case by simp
next
  case (Cons x es)
  show ?case
  proof (cases x)
    case (Inl e0)
    then show ?thesis by simp
  next
    case (Inr t)
    obtain r w1 where wr: "Write w t = (r, w1)" by (cases "Write w t")
    from Write_prefix[of w t] wr have p1: "prefix (written w) (written w1)" by simp
    show ?thesis
    proof (cases r)
      case None
      with Inr wr have "Execute_emits w (x # es) = Execute_emits w1 es" by simp
      with prefix_order.trans[OF p1 Cons.IH[of w1]] show ?thesis by simp
    next
      case (Some e1)
      with Inr wr p1 show ?thesis by simp
    qed
  qed
qed

lemma emits_ok_no_Inl: "emits_ok es \<Longrightarrow> Inl e \<notin> set es"
  by (auto simp: emits_ok_def list_all_iff)

lemma Mock_cases:
  "Mock rt m w name = (e, m', w') \<Longrightarrow>
   (\<exists>e0. Mock_doc rt m name = (Inl e0, m') \<and> e = Some e0 \<and> w' = w) \<or>
   (\<exists>d. Mock_doc rt m name = (Inr d, m') \<and> Execute_emits w (moqTemplate d) = (e, w'))"
  by (auto simp: Mock_def Execute_def split: prod.splits sum.splits)

lemma Mock_success:
  assumes "Mock_doc rt m name = (Inr d, m')" and "room w = None"
  shows "Mock rt m w name = (None, m', w\<lparr>written := written w @ emit_text (moqTemplate d)\<rparr>)"
  using assms Execute_emits_ok[OF moqTemplate_ok[OF Mock_doc_ok[OF assms(1)]] assms(2)]
  by (simp add: Mock_def Execute_def)

text \<open>
  Claim C6, as amended. When \<^verbatim>\<open>Mock\<close> returns an error other than the error of the output
  writer (an empty name list, a type-check failure, an interface not found, a name that is
  not an interface), nothing has been written. The template is executed straight into the
  writer, so when a write fails the error is returned after the bytes accepted so far have
  been written; what the writer held before the call is kept in every case.
\<close>

theorem Mock_error_written:
  assumes "Mock rt m w name = (Some e, m', w')"
  shows "(e \<noteq> WriteError \<longrightarrow> w' = w) \<and> prefix (written w) (written w')"
proof -
  from Mock_cases[OF assms] consider
    (pre) e0 where "Mock_doc rt m name = (Inl e0, m')" "w' = w"
  | (render) d where "Mock_doc rt m name = (Inr d, m')"
      "Execute_emits w (moqTemplate d) = (Some e, w')"
    by blast
  then show ?thesis
  proof cases
    case pre
    then show ?thesis by simp
  next
    case render
    from emits_ok_no_Inl[OF moqTemplate_ok[OF Mock_doc_ok[OF render(1)]]]
      Execute_emits_error[OF render(2)]
    have "e = WriteError" by blast
    moreover from Execute_emits_prefix[of w "moqTemplate d"] render(2)
    have "prefix (written w) (written w')" by simp
    ultimately show ?thesis by simp
  qed
qed

text \<open>
  The claim as stated fails: on a writer with room for three bytes \<^verbatim>\<open>Mock\<close> returns the
  write error, and the bytes \<^verbatim>\<open>pac\<close> have been written.
\<close>

theorem Mock_error_written_counterexample:
  "Mock rt_id ex_AB ex_small [''B'']
     = (Some WriteError, ex_AB, \<lparr>written = ''pac'', room = Some 0\<rparr>)"
  by (simp add: Mock_def ex_AB_doc_B_fresh Execute_def moqTemplate_def Write_def ex_small_def)

lemma ex_AB_Mock_Z:
  "Mock rt_id ex_AB ex_buffer [''Z''] = (Some (InterfaceNotFound ''Z''), ex_AB, ex_buffer)"
  by (simp add: Mock_def Mock_doc_def rt_id_def ex_AB_def)

theorem Mock_error_written_witness:
  "Mock rt_id ex_AB ex_buffer [''Z''] = (Some (InterfaceNotFound ''Z''), ex_AB, ex_buffer)
   \<and> InterfaceNotFound ''Z'' \<noteq> WriteError
   \<and> prefix (written ex_buffer) (written ex_buffer)"
  using Mock_error_written[OF ex_AB_Mock_Z] ex_AB_Mock_Z by simp

subsection \<open>Totality of extraction on parameter lists\<close>

lemma TypeString_Slice: "fst (TypeString (Slice t) qf s) = ''[]'' @ fst (TypeString t qf s)"
  by (simp add: TypeString_def split: prod.splits)

lemma extractArgs_loop_total:
  assumes "Variadic_of sig \<Longrightarrow>
     \<forall>j < length rest. ii + j = L - 1 \<longrightarrow> (\<exists>e. snd (rest ! j) = Slice e)"
  shows "\<exists>ps m'. extractArgs_loop sig L fmt rest ii acc m = (Inr ps, m')"
  using assms
proof (induction rest arbitrary: ii acc m)
  case Nil
  then show ?case by simp
next
  case (Cons p rest)
  obtain tn m1 where ts: "TypeString (snd p) packageQualifier m = (tn, m1)"
    by (cases "TypeString (snd p) packageQualifier m")
  have np: "\<not> (Variadic_of sig \<and> ii = L - 1 \<and> length tn < 2)"
  proof
    assume a: "Variadic_of sig \<and> ii = L - 1 \<and> length tn < 2"
    with Cons.prems obtain e where "snd p = Slice e" by fastforce
    with ts TypeString_Slice[of e packageQualifier m] have "2 \<le> length tn" by simp
    with a show False by simp
  qed
  have "\<exists>ps m'. extractArgs_loop sig L fmt rest (ii + 1)
       (acc @ [\<lparr>Name = (if fst p = [] then Sprintf_d fmt (ii + 1) else fst p), Type = tn,
                 Variadic = (Variadic_of sig \<and> ii = L - 1 \<and> take 2 tn = ''[]'')\<rparr>]) m1
         = (Inr ps, m')"
  proof (rule Cons.IH)
    assume v: "Variadic_of sig"
    show "\<forall>j < length rest. ii + 1 + j = L - 1 \<longrightarrow> (\<exists>e. snd (rest ! j) = Slice e)"
    proof (intro allI impI)
      fix j assume "j < length rest" "ii + 1 + j = L - 1"
      with Cons.prems[OF v] have "\<exists>e. snd ((p # rest) ! Suc j) = Slice e"
        by (metis Suc_less_eq add_Suc_right add_Suc_shift length_Cons plus_1_eq_Suc add.commute)
      then show "\<exists>e. snd (rest ! j) = Slice e" by simp
    qed
  qed
  then show ?case unfolding extractArgs_loop_step[OF ts np] .
qed

lemma extractArgs_total:
  assumes "wf_signature sig"
  shows "\<exists>ps m'. extractArgs sig (Params_of sig) fmt m = (Inr ps, m')"
  unfolding extractArgs_def
proof (rule extractArgs_loop_total)
  assume "Variadic_of sig"
  with assms have ne: "Params_of sig \<noteq> []"
    and sl: "\<exists>e. snd (last (Params_of sig)) = Slice e"
    by (auto simp: wf_signature_def split: gotype.splits)
  show "\<forall>j < length (Params_of sig). 0 + j = length (Params_of sig) - 1 \<longrightarrow>
          (\<exists>e. snd (Params_of sig ! j) = Slice e)"
    using sl ne by (auto simp: last_conv_nth)
qed

lemma extractArgs_total_nonvariadic:
  "\<not> Variadic_of sig \<Longrightarrow> \<exists>ps m'. extractArgs sig list fmt m = (Inr ps, m')"
  unfolding extractArgs_def by (rule extractArgs_loop_total) simp

subsection \<open>The rendered methods\<close>

lemma emit_text_append [simp]: "emit_text (xs @ ys) = emit_text xs @ emit_text ys"
  by (simp add: emit_text_def)

lemma emit_text_elem:
  "x \<in> set xs \<Longrightarrow> \<exists>pre post. emit_text (concat (map f xs)) = pre @ emit_text (f x) @ post"
proof -
  assume "x \<in> set xs"
  then obtain ys zs where "xs = ys @ x # zs" by (auto dest: split_list)
  then have "emit_text (concat (map f xs)) =
      emit_text (concat (map f ys)) @ emit_text (f x) @ emit_text (concat (map f zs))"
    by simp
  then show ?thesis by blast
qed

lemma ex_pre_last: "\<exists>pre. a @ z = pre @ (z :: string)"
  by blast

lemma ex_pre_step: "\<exists>pre. r = pre @ z \<Longrightarrow> \<exists>pre. a @ r = pre @ (z :: string)"
  by (metis append_assoc)

lemma ex_rest: "a = t @ tail \<Longrightarrow> \<exists>rest. a @ x = t @ (rest :: string)"
  by simp

lemma moqTemplate_text:
  "\<exists>pre. emit_text (moqTemplate d) = pre @ emit_text (concat (map tmpl_Objects (Objects d)))"
  unfolding moqTemplate_def emit_text_append
  by (intro ex_pre_step ex_pre_last)

lemma tmpl_Objects_text:
  "\<exists>pre. emit_text (tmpl_Objects ob)
     = pre @ emit_text (concat (map (tmpl_impl ob) (Methods ob)))"
  unfolding tmpl_Objects_def emit_text_append
  by (intro ex_pre_step ex_pre_last)

lemma tmpl_impl_text:
  assumes "Arglist mt = Inr a" and "ReturnArglist mt = Inr r"
  shows "\<exists>rest. emit_text (tmpl_impl ob mt)
     = (impl_comment mt @ impl_signature ob mt a r @ nil_check ob mt @ lock_call mt) @ rest"
  unfolding tmpl_impl_def emit_text_append
  apply (rule ex_rest[where tail = "''\<newline>	mock.CallsTo.'' @ method_Name mt
      @ '' = append(mock.CallsTo.'' @ method_Name mt @ '', struct{''"])
  apply (simp add: emit_text_def assms impl_comment_def impl_signature_def nil_check_def
      lock_call_def)
  done

lemma Execute_emits_written:
  "Execute_emits w es = (None, w') \<Longrightarrow> written w' = written w @ emit_text es"
proof (induction es arbitrary: w)
  case Nil
  then show ?case by (simp add: emit_text_def)
next
  case (Cons x es)
  show ?case
  proof (cases x)
    case (Inl e0)
    with Cons.prems show ?thesis by simp
  next
    case (Inr t)
    obtain r0 w1 where wr: "Write w t = (r0, w1)" by (cases "Write w t")
    with Inr Cons.prems have r0: "r0 = None" and rec: "Execute_emits w1 es = (None, w')"
      by (auto split: option.splits)
    from wr r0 have "written w1 = written w @ t"
      by (auto simp: Write_def split: option.splits if_splits)
    with Cons.IH[OF rec] Inr show ?thesis by (simp add: emit_text_def)
  qed
qed

text \<open>
  Claim C2. In the text a successful \<^verbatim>\<open>Mock\<close> writes, the implementation of every method
  of every interface of the document begins, right after the opening brace of its signature,
  with the test \<^verbatim>\<open>if mock.<Method>Func == nil\<close> and the panic, followed by the lock of the
  call log: the test comes before anything is logged or invoked.
\<close>

theorem nil_check_first:
  assumes "Mock rt m w name = (None, m', w')"
    and "Mock_doc rt m name = (Inr d, m')"
    and "ob \<in> set (Objects d)" and "mt \<in> set (Methods ob)"
  shows "\<exists>a r pre post. Arglist mt = Inr a \<and> ReturnArglist mt = Inr r \<and>
     written w' = written w @ pre @ impl_comment mt @ impl_signature ob mt a r
       @ nil_check ob mt @ lock_call mt @ post"
proof -
  from Mock_cases[OF assms(1)] assms(2)
  have ex: "Execute_emits w (moqTemplate d) = (None, w')" by auto
  from Mock_doc_ok[OF assms(2)] assms(3,4) have ok: "method_ok mt"
    by (auto simp: list_all_iff obj_ok_def)
  from Arglist_ok[OF ok] obtain a where a: "Arglist mt = Inr a" by (cases "Arglist mt") auto
  from ReturnArglist_ok[OF ok] obtain r where r: "ReturnArglist mt = Inr r"
    by (cases "ReturnArglist mt") auto
  let ?t = "impl_comment mt @ impl_signature ob mt a r @ nil_check ob mt @ lock_call mt"
  from tmpl_impl_text[OF a r, of ob] obtain rest where
    t1: "emit_text (tmpl_impl ob mt) = ?t @ rest" by blast
  from emit_text_elem[OF assms(4), of "tmpl_impl ob"] obtain p2 q2 where
    t2: "emit_text (concat (map (tmpl_impl ob) (Methods ob))) = p2 @ emit_text (tmpl_impl ob mt) @ q2"
    by blast
  from tmpl_Objects_text[of ob] obtain p3 where
    t3: "emit_text (tmpl_Objects ob) = p3 @ emit_text (concat (map (tmpl_impl ob) (Methods ob)))"
    by blast
  from emit_text_elem[OF assms(3), of tmpl_Objects] obtain p4 q4 where
    t4: "emit_text (concat (map tmpl_Objects (Objects d))) = p4 @ emit_text (tmpl_Objects ob) @ q4"
    by blast
  from moqTemplate_text[of d] obtain p5 where
    t5: "emit_text (moqTemplate d) = p5 @ emit_text (concat (map tmpl_Objects (Objects d)))"
    by blast
  have "written w' = written w @ emit_text (moqTemplate d)"
    by (rule Execute_emits_written[OF ex])
  also have "emit_text (moqTemplate d) = (p5 @ p4 @ p3 @ p2) @ ?t @ (rest @ q2 @ q4)"
    unfolding t5 t4 t3 t2 t1 by simp
  finally have "written w' = written w @ (p5 @ p4 @ p3 @ p2) @ impl_comment mt
      @ impl_signature ob mt a r @ nil_check ob mt @ lock_call mt @ (rest @ q2 @ q4)"
    by simp
  with a r show ?thesis by blast
qed

lemma ex_AB_Mock_B:
  "Mock rt_id ex_AB ex_buffer [''B''] =
     (None, ex_AB, ex_buffer\<lparr>written := written ex_buffer @ emit_text (moqTemplate
        \<lparr>PackageName = ''example'',
           Objects = [\<lparr>InterfaceName = ''B'',
                        Methods = [\<lparr>method_Name = ''Ping'', Params = [], Returns = []\<rparr>]\<rparr>],
           Imports = [''sync'']\<rparr>)\<rparr>)"
  by (rule Mock_success[OF ex_AB_doc_B_fresh]) (simp add: ex_buffer_def)

theorem nil_check_first_witness:
  \<open>\<exists>pre post. written (snd (snd (Mock rt_id ex_AB ex_buffer [''B''])))
     = pre @ ''func (mock *BMock) Ping()  {\<newline>	if mock.PingFunc == nil {\<newline>		panic("moq: BMock.PingFunc is nil but was just called")\<newline>	}\<newline>	mock.CallsTo.lockPing.Lock()'' @ post\<close>
proof -
  let ?ob = "\<lparr>InterfaceName = ''B'',
      Methods = [\<lparr>method_Name = ''Ping'', Params = [], Returns = []\<rparr>]\<rparr>"
  let ?mt = "\<lparr>method_Name = ''Ping'', Params = [], Returns = []\<rparr>"
  from nil_check_first[OF ex_AB_Mock_B ex_AB_doc_B_fresh, of ?ob ?mt]
  obtain a r pre post where a: "Arglist ?mt = Inr a" and r: "ReturnArglist ?mt = Inr r"
    and w: "written (snd (snd (Mock rt_id ex_AB ex_buffer [''B'']))) =
      written ex_buffer @ pre @ impl_comment ?mt @ impl_signature ?ob ?mt a r
       @ nil_check ?ob ?mt @ lock_call ?mt @ post"
    unfolding ex_AB_Mock_B by auto
  from a have a': "a = []" by (simp add: Arglist_def)
  from r have r': "r = []" by (simp add: ReturnArglist_def)
  have \<open>written (snd (snd (Mock rt_id ex_AB ex_buffer [''B'']))) =
      (pre @ impl_comment ?mt) @ ''func (mock *BMock) Ping()  {\<newline>	if mock.PingFunc == nil {\<newline>		panic("moq: BMock.PingFunc is nil but was just called")\<newline>	}\<newline>	mock.CallsTo.lockPing.Lock()'' @ post\<close>
    unfolding w a' r'
    by (simp add: ex_buffer_def impl_signature_def nil_check_def lock_call_def)
  then show ?thesis by blast
qed

subsection \<open>Two runs\<close>

lemma mset_eq_short: "mset xs = mset ys \<Longrightarrow> length ys \<le> 1 \<Longrightarrow> xs = ys"
proof -
  assume eq: "mset xs = mset ys" and le: "length ys \<le> 1"
  from eq have len: "length xs = length ys" by (rule mset_eq_length)
  show ?thesis
  proof (cases ys)
    case Nil
    with len show ?thesis by simp
  next
    case (Cons y ys')
    with le have ys: "ys = [y]" by simp
    with len obtain x where xs: "xs = [x]" by (cases xs) auto
    with ys eq show ?thesis by simp
  qed
qed

lemma range_pkgs_short: "valid_runtime rt \<Longrightarrow> length m \<le> 1 \<Longrightarrow> range_pkgs rt m = m"
  by (rule mset_eq_short) (simp_all add: valid_runtime_def)

lemma range_imports_short: "valid_runtime rt \<Longrightarrow> length m \<le> 1 \<Longrightarrow> range_imports rt m = m"
  by (rule mset_eq_short) (simp_all add: valid_runtime_def)

lemma New_pkgs: "New rt (Inr pkgs0) s pn = Inr m \<Longrightarrow> pkgs m = pkgs0"
  by (auto simp: New_def Let_def split: if_splits)

lemma New_pkgName: "New rt (Inr pkgs0) s pn = Inr m \<Longrightarrow> pkgName m \<noteq> []"
  by (auto simp: New_def Let_def split: if_splits)

lemma check_files:
  assumes "valid_runtime rt" and "check_order_free ps" and "(k, pkg) \<in> set ps"
  shows "Check pkg (Mock_files (range_files rt (Files pkg))) = Check pkg (map snd (Files pkg))"
proof -
  from assms(1) have "mset (range_files rt (Files pkg)) = mset (Files pkg)"
    by (simp add: valid_runtime_def)
  then have "mset (map snd (range_files rt (Files pkg))) = mset (map snd (Files pkg))"
    by (metis mset_map)
  with assms(2,3) show ?thesis
    unfolding check_order_free_def Mock_files_map by blast
qed

lemma Mock_pkgs_runtime:
  assumes "valid_runtime rt1" and "valid_runtime rt2"
  shows "check_order_free ps \<Longrightarrow> Mock_pkgs rt2 ps name objs m = Mock_pkgs rt1 ps name objs m"
proof (induction ps arbitrary: objs m)
  case Nil
  then show ?case by simp
next
  case (Cons x rest)
  obtain k pkg where x: "x = (k, pkg)" by (cases x)
  from Cons.prems have rest: "check_order_free rest" by (simp add: check_order_free_def)
  have c: "Check pkg (Mock_files (range_files rt2 (Files pkg)))
         = Check pkg (Mock_files (range_files rt1 (Files pkg)))"
    using check_files[OF assms(1) Cons.prems, of k pkg] check_files[OF assms(2) Cons.prems, of k pkg]
    by (simp add: x)
  show ?case
    unfolding x using Cons.IH[OF rest]
    by (simp add: c Let_def split: sum.splits prod.splits)
qed

lemma Mock_doc_cases:
  "name \<noteq> [] \<Longrightarrow> Mock_pkgs rt (range_pkgs rt (pkgs m)) name [] m = (r, m1) \<Longrightarrow>
   Mock_doc rt m name =
     (case r of Inl e \<Rightarrow> Inl e
      | Inr objs \<Rightarrow> Inr \<lparr>PackageName = pkgName m, Objects = objs,
           Imports = moqImports @ map fst (range_imports rt (imports' m1))\<rparr>, m1)"
  by (simp add: Mock_doc_def split: sum.splits)

lemma import_block_Nil: "import_block [] = []"
  by (simp add: import_block_def emit_text_def)

lemma moqTemplate_import_block:
  "\<exists>pre post. \<forall>paths.
     emit_text (moqTemplate \<lparr>PackageName = p, Objects = objs, Imports = paths\<rparr>)
       = pre @ import_block paths @ post"
  unfolding moqTemplate_def import_block_def emit_text_append
  by (simp del: append_assoc) blast

text \<open>
  Claim C1, as amended. Take two runs of \<^verbatim>\<open>New\<close> followed by \<^verbatim>\<open>Mock\<close> on the same parsed
  directory with the same arguments, under any two orders of map iteration, where the
  directory holds at most one package and the outcome of type-checking it does not depend
  on the order of its files. The second run makes the same Mocker. If the import set holds
  at most one path after the first run, the second run returns the same error, leaves the
  same Mocker and writes the same bytes. On an unbounded writer the second run always
  returns the same error and leaves the same Mocker, and the texts of the two runs are equal
  except for the import lines, which are the lines of the same paths in possibly different
  orders.
\<close>

theorem Mock_deterministic:
  assumes "valid_runtime rt1" and "valid_runtime rt2"
    and "length pkgs0 \<le> 1" and "check_order_free pkgs0"
    and "New rt1 (Inr pkgs0) s pn = Inr m"
    and "Mock rt1 m w name = (e, m', w')"
  shows "New rt2 (Inr pkgs0) s pn = Inr m
       \<and> (length (imports' m') \<le> 1 \<longrightarrow> Mock rt2 m w name = (e, m', w'))
       \<and> (room w = None \<longrightarrow>
            (\<exists>w2 pre post paths1 paths2.
               Mock rt2 m w name = (e, m', w2) \<and> mset paths2 = mset paths1 \<and>
               written w' = pre @ import_block paths1 @ post \<and>
               written w2 = pre @ import_block paths2 @ post))"
proof -
  have r1: "range_pkgs rt1 pkgs0 = pkgs0" and r2: "range_pkgs rt2 pkgs0 = pkgs0"
    using assms(1,2,3) by (simp_all add: range_pkgs_short)
  have "New rt2 (Inr pkgs0) s pn = New rt1 (Inr pkgs0) s pn"
    by (simp add: New_def r1 r2)
  with assms(5) have new: "New rt2 (Inr pkgs0) s pn = Inr m" by simp
  have pk: "pkgs m = pkgs0" by (rule New_pkgs[OF assms(5)])
  show ?thesis
  proof (cases "name = []")
    case True
    then have "Mock rt2 m w name = Mock rt1 m w name"
      by (simp add: Mock_def Mock_doc_def)
    with assms(6) have eq: "Mock rt2 m w name = (e, m', w')" by simp
    have "written w' = written w' @ import_block [] @ []"
      by (simp add: import_block_Nil)
    with eq new show ?thesis by blast
  next
    case False
    obtain r m1 where p1: "Mock_pkgs rt1 pkgs0 name [] m = (r, m1)"
      by (cases "Mock_pkgs rt1 pkgs0 name [] m")
    with Mock_pkgs_runtime[OF assms(1,2,4), of name "[]" m]
    have p2: "Mock_pkgs rt2 pkgs0 name [] m = (r, m1)" by simp
    have d1: "Mock_doc rt1 m name =
       (case r of Inl e \<Rightarrow> Inl e
        | Inr objs \<Rightarrow> Inr \<lparr>PackageName = pkgName m, Objects = objs,
             Imports = moqImports @ map fst (range_imports rt1 (imports' m1))\<rparr>, m1)"
      using Mock_doc_cases[OF False, of rt1 m r m1] p1 by (simp add: pk r1)
    have d2: "Mock_doc rt2 m name =
       (case r of Inl e \<Rightarrow> Inl e
        | Inr objs \<Rightarrow> Inr \<lparr>PackageName = pkgName m, Objects = objs,
             Imports = moqImports @ map fst (range_imports rt2 (imports' m1))\<rparr>, m1)"
      using Mock_doc_cases[OF False, of rt2 m r m1] p2 by (simp add: pk r2)
    have m': "m' = m1"
      using assms(6) Mock_Mocker[of rt1 m w name] d1 by simp
    show ?thesis
    proof (cases r)
      case (Inl e0)
      with d1 d2 have "Mock rt2 m w name = Mock rt1 m w name"
        by (simp add: Mock_def)
      with assms(6) have eq: "Mock rt2 m w name = (e, m', w')" by simp
      have "written w' = written w' @ import_block [] @ []"
        by (simp add: import_block_Nil)
      with eq new show ?thesis by blast
    next
      case (Inr objs)
      let ?i1 = "moqImports @ map fst (range_imports rt1 (imports' m1))"
      let ?i2 = "moqImports @ map fst (range_imports rt2 (imports' m1))"
      let ?d1 = "\<lparr>PackageName = pkgName m, Objects = objs, Imports = ?i1\<rparr>"
      let ?d2 = "\<lparr>PackageName = pkgName m, Objects = objs, Imports = ?i2\<rparr>"
      from d1 Inr have e1: "Mock_doc rt1 m name = (Inr ?d1, m1)" by simp
      from d2 Inr have e2: "Mock_doc rt2 m name = (Inr ?d2, m1)" by simp
      have short: "Mock rt2 m w name = (e, m', w')" if "length (imports' m') \<le> 1"
      proof -
        from that m' assms(1,2) have "?i2 = ?i1" by (simp add: range_imports_short)
        with e1 e2 have "Mock rt2 m w name = Mock rt1 m w name" by (simp add: Mock_def)
        with assms(6) show ?thesis by simp
      qed
      have perm: "mset ?i2 = mset ?i1"
      proof -
        from assms(1,2) have "mset (range_imports rt2 (imports' m1))
            = mset (range_imports rt1 (imports' m1))"
          by (simp add: valid_runtime_def)
        then have "mset (map fst (range_imports rt2 (imports' m1)))
            = mset (map fst (range_imports rt1 (imports' m1)))"
          by (metis mset_map)
        then show ?thesis by simp
      qed
      have long: "\<exists>w2 pre post paths1 paths2.
               Mock rt2 m w name = (e, m', w2) \<and> mset paths2 = mset paths1 \<and>
               written w' = pre @ import_block paths1 @ post \<and>
               written w2 = pre @ import_block paths2 @ post" if room: "room w = None"
      proof -
        from moqTemplate_import_block[of "pkgName m" objs] obtain pre post where
          t: "\<And>paths. emit_text (moqTemplate
                \<lparr>PackageName = pkgName m, Objects = objs, Imports = paths\<rparr>)
              = pre @ import_block paths @ post"
          by blast
        from Mock_success[OF e1 room] assms(6)
        have a: "e = None" and w1: "written w' = written w @ emit_text (moqTemplate ?d1)"
          by simp_all
        from Mock_success[OF e2 room] a m'
        have b: "Mock rt2 m w name =
            (e, m', w\<lparr>written := written w @ emit_text (moqTemplate ?d2)\<rparr>)"
          by simp
        have "written w' = (written w @ pre) @ import_block ?i1 @ post"
          unfolding w1 t by simp
        moreover have "written (w\<lparr>written := written w @ emit_text (moqTemplate ?d2)\<rparr>)
            = (written w @ pre) @ import_block ?i2 @ post"
          unfolding t by simp
        ultimately show ?thesis using b perm by blast
      qed
      from new short long show ?thesis by blast
    qed
  qed
qed

lemma ex_C_New: "New rt (Inr ex_C_pkgs) ''.'' ''example'' = Inr ex_C"
  by (simp add: New_def ex_C_def)

lemma ex_C_pkgs_doc:
  "Mock_pkgs rt ex_C_pkgs [''C''] [] ex_C =
     (Inr [\<lparr>InterfaceName = ''C'',
            Methods = [\<lparr>method_Name = ''Copy'',
              Params = [\<lparr>Name = ''dst'', Type = ''io.Writer'', Variadic = False\<rparr>,
                        \<lparr>Name = ''f'', Type = ''*os.File'', Variadic = False\<rparr>],
              Returns = []\<rparr>]\<rparr>],
      ex_C\<lparr>imports' := [(''io'', True), (''os'', True)]\<rparr>)"
  by (simp add: ex_C_pkgs_def ex_C_def ex_io_def ex_os_def extractArgs_def
      TypeString_def packageQualifier_def Let_def)

lemma import_order_text:
  "emit_text (moqTemplate \<lparr>PackageName = p, Objects = objs, Imports = [''sync'', ''io'', ''os'']\<rparr>)
   \<noteq> emit_text (moqTemplate \<lparr>PackageName = p, Objects = objs, Imports = [''sync'', ''os'', ''io'']\<rparr>)"
  by (simp add: emit_text_def moqTemplate_def tmpl_Imports_def)

lemma ex_C_doc_id:
  "Mock_doc rt_id ex_C [''C''] =
     (Inr \<lparr>PackageName = ''example'',
           Objects = [\<lparr>InterfaceName = ''C'',
            Methods = [\<lparr>method_Name = ''Copy'',
              Params = [\<lparr>Name = ''dst'', Type = ''io.Writer'', Variadic = False\<rparr>,
                        \<lparr>Name = ''f'', Type = ''*os.File'', Variadic = False\<rparr>],
              Returns = []\<rparr>]\<rparr>],
           Imports = [''sync'', ''io'', ''os'']\<rparr>,
      ex_C\<lparr>imports' := [(''io'', True), (''os'', True)]\<rparr>)"
proof -
  have "range_pkgs rt_id (pkgs ex_C) = ex_C_pkgs" by (simp add: rt_id_def ex_C_def)
  then show ?thesis
    by (simp add: Mock_doc_def ex_C_pkgs_doc moqImports_def rt_id_def) (simp add: ex_C_def)
qed

lemma ex_C_doc_rev:
  "Mock_doc rt_rev ex_C [''C''] =
     (Inr \<lparr>PackageName = ''example'',
           Objects = [\<lparr>InterfaceName = ''C'',
            Methods = [\<lparr>method_Name = ''Copy'',
              Params = [\<lparr>Name = ''dst'', Type = ''io.Writer'', Variadic = False\<rparr>,
                        \<lparr>Name = ''f'', Type = ''*os.File'', Variadic = False\<rparr>],
              Returns = []\<rparr>]\<rparr>],
           Imports = [''sync'', ''os'', ''io'']\<rparr>,
      ex_C\<lparr>imports' := [(''io'', True), (''os'', True)]\<rparr>)"
proof -
  have "range_pkgs rt_rev (pkgs ex_C) = ex_C_pkgs"
    by (simp add: rt_rev_def ex_C_def ex_C_pkgs_def)
  then show ?thesis
    by (simp add: Mock_doc_def ex_C_pkgs_doc moqImports_def rt_rev_def) (simp add: ex_C_def)
qed

text \<open>
  The claim as stated fails: for \<^verbatim>\<open>C { Copy(dst io.Writer, f *os.File) }\<close> the two runtimes
  visit the import set in different orders, and the two runs write different text.
\<close>

theorem Mock_deterministic_counterexample:
  "valid_runtime rt_id \<and> valid_runtime rt_rev
   \<and> New rt_id (Inr ex_C_pkgs) ''.'' ''example'' = Inr ex_C
   \<and> New rt_rev (Inr ex_C_pkgs) ''.'' ''example'' = Inr ex_C
   \<and> written (snd (snd (Mock rt_id ex_C ex_buffer [''C''])))
       \<noteq> written (snd (snd (Mock rt_rev ex_C ex_buffer [''C''])))"
proof -
  have b: "room ex_buffer = None" by (simp add: ex_buffer_def)
  show ?thesis
    unfolding Mock_success[OF ex_C_doc_id b] Mock_success[OF ex_C_doc_rev b]
    using import_order_text valid_rt_id valid_rt_rev
    by (simp add: ex_C_New ex_buffer_def)
qed

lemma ex_AB_doc_A:
  "Mock_doc rt_id ex_AB [''A''] =
     (Inr \<lparr>PackageName = ''example'',
           Objects = [\<lparr>InterfaceName = ''A'',
                        Methods = [\<lparr>method_Name = ''Read'',
                          Params = [\<lparr>Name = ''r'', Type = ''io.Reader'', Variadic = False\<rparr>],
                          Returns = []\<rparr>]\<rparr>],
           Imports = [''sync'', ''io'']\<rparr>, ex_AB\<lparr>imports' := [(''io'', True)]\<rparr>)"
  by (simp add: Mock_doc_def rt_id_def ex_AB_def ex_A_def ex_B_def ex_io_def extractArgs_def
      moqImports_def TypeString_def packageQualifier_def Let_def)

theorem Mock_deterministic_witness:
  "valid_runtime rt_id \<and> valid_runtime rt_rev \<and> check_order_free (pkgs ex_AB)
   \<and> New rt_rev (Inr (pkgs ex_AB)) ''.'' ''example'' = Inr ex_AB
   \<and> Mock rt_rev ex_AB ex_buffer [''A''] = Mock rt_id ex_AB ex_buffer [''A'']"
proof -
  have b: "room ex_buffer = None" by (simp add: ex_buffer_def)
  have h3: "length (pkgs ex_AB) \<le> 1" by (simp add: ex_AB_def)
  have h4: "check_order_free (pkgs ex_AB)"
    by (simp add: check_order_free_def ex_AB_def)
  have h5: "New rt_id (Inr (pkgs ex_AB)) ''.'' ''example'' = Inr ex_AB"
    by (simp add: New_def ex_AB_def Let_def)
  from Mock_deterministic[OF valid_rt_id valid_rt_rev h3 h4 h5 Mock_success[OF ex_AB_doc_A b]]
  show ?thesis
    using valid_rt_id valid_rt_rev h4 Mock_success[OF ex_AB_doc_A b] by simp
qed

text \<open>
  The condition on the type checker is needed: when the checker reports the first error of
  the first file it is handed, two runs on one package return different errors.
\<close>

lemma check_order_matters:
  "fst (Mock rt_id ex_broken ex_buffer [''A'']) = Some (TypeCheckError ''error in a'')
   \<and> fst (Mock rt_rev ex_broken ex_buffer [''A'']) = Some (TypeCheckError ''error in b'')"
  by (simp add: Mock_def Mock_doc_def rt_id_def rt_rev_def ex_broken_def)

end
